theory Spec2Isabelle
  imports Main "HOL-Library.Word"
begin

section \<open>The optimizing compiler thread of V8 (optimizing-compiler-thread.cc)\<close>

text \<open>
  The file coordinates two threads: the execution thread, which queues functions for
  recompilation, installs finished code and stops the worker; and the optimizer thread,
  whose body is \<open>Run\<close>. They share two FIFO queues, an atomic counter, a stop flag, two
  semaphores and the function records that the queued jobs point to.

  The embedding has two layers. The first gives each C++ member function as a HOL function
  on the shared data (\<open>CompileNext\<close>, \<open>InstallOptimizedFunctions\<close>,
  \<open>QueueForOptimization\<close> and the two halves of \<open>Stop\<close>). The second splits the same
  statements into atomic steps with a program counter per thread, so that every
  interleaving of the two threads is a schedule that can be executed.

  Left out: the tracing under \<open>FLAG_trace_parallel_recompilation\<close> (clock reads and a printed
  percentage), \<open>OS::Sleep\<close> (which only delays), the thread-local isolate setup, and the
  relocation lock taken in \<open>CompileNext\<close> (the other operations of this file never take
  it, so it excludes none of the interleavings modelled here).
\<close>

subsection \<open>Data\<close>

datatype thread = ExecutionThread | OptimizerThread

text \<open>\<open>OptimizingCompiler::Status\<close>, the result of \<open>OptimizeGraph()\<close>.\<close>

datatype Status = FAILED | BAILED_OUT | SUCCEEDED

text \<open>
  Modelled from the spec: the function record (\<open>JSFunction\<close>, declared outside this file).
  The file reads it through \<open>IsInRecompileQueue()\<close> and writes it through
  \<open>MarkForInstallingRecompiledCode()\<close> and \<open>Compiler::InstallOptimizedCode\<close>. Following
  the spec's sections 3, 4.3 and 6, the record is in one of three states: queued for
  recompilation (the eligibility bit reads "pending"), marked for installing (the bit
  reads "ready"), or running actual code (installation resets the queued flag).
\<close>

datatype JSFunction = InRecompileQueue | MarkedForInstalling | ActualCode

definition IsInRecompileQueue :: "JSFunction \<Rightarrow> bool" where
  "IsInRecompileQueue f = (f = InRecompileQueue)"

definition MarkForInstallingRecompiledCode :: "JSFunction \<Rightarrow> JSFunction" where
  "MarkForInstallingRecompiledCode f = MarkedForInstalling"

text \<open>
  A job (\<open>OptimizingCompiler*\<close>): the address of the function record that
  \<open>info()->closure()\<close> yields, and the status that its \<open>OptimizeGraph()\<close> returns (the
  compile pipeline itself is outside this file).
\<close>

record OptimizingCompiler =
  closure :: nat
  OptimizeGraph :: Status

text \<open>
  What the file does to the shared data, in the order it happened. The log is an observer
  only: no operation reads it.
\<close>

datatype event =
    InputEnqueue thread OptimizingCompiler
  | InputDequeue thread OptimizingCompiler
  | Optimize thread OptimizingCompiler
  | OutputEnqueue thread OptimizingCompiler
  | Mark thread nat
  | Install thread OptimizingCompiler

text \<open>
  The members of \<open>OptimizingCompilerThread\<close> that the file uses, and the heap of function
  records. \<open>queue_length_\<close> is an \<open>Atomic32\<close>, a signed 32-bit integer: it is a word here
  and compared as a signed value.
\<close>

record coordinator =
  input_queue :: "OptimizingCompiler list"
  output_queue :: "OptimizingCompiler list"
  queue_length :: "32 word"
  stop_thread :: bool
  input_queue_semaphore :: nat
  stop_semaphore :: nat
  heap :: "nat \<Rightarrow> JSFunction"
  trace :: "event list"

text \<open>
  The build and the flags. \<open>ASSERT\<close> and the \<open>#ifdef DEBUG\<close> blocks are compiled only in a
  debug build. \<open>IsQueueAvailable\<close> is declared in the header, which is not part of the
  sources at hand: it is a parameter.
\<close>

record config =
  DEBUG :: bool
  FLAG_parallel_recompilation :: bool
  FLAG_parallel_recompilation_delay :: int
  IsQueueAvailable :: "coordinator \<Rightarrow> bool"

datatype error = AssertionFailed | NullDereference

subsection \<open>The member functions\<close>

definition IsOptimizerThread :: "config \<Rightarrow> thread \<Rightarrow> bool" where
  "IsOptimizerThread cfg t =
     (if \<not> FLAG_parallel_recompilation cfg then False else t = OptimizerThread)"

definition Barrier_AtomicIncrement :: "32 word \<Rightarrow> 32 word \<Rightarrow> 32 word" where
  "Barrier_AtomicIncrement v increment = v + increment"

text \<open>
  Modelled from the spec: \<open>Compiler::InstallOptimizedCode\<close>, defined outside this file.
  It leaves the function record running actual code (the assertion that follows the call in
  \<open>InstallOptimizedFunctions\<close> says so, and so does section 4.3 of the spec).
\<close>

definition InstallOptimizedCode :: "thread \<Rightarrow> OptimizingCompiler \<Rightarrow> coordinator \<Rightarrow> coordinator" where
  "InstallOptimizedCode t compiler s =
     s\<lparr>heap := (heap s)(closure compiler := ActualCode),
       trace := trace s @ [Install t compiler]\<rparr>"

text \<open>
  \<open>CompileNext\<close>, lines 78 to 102. \<open>Dequeue\<close> on an empty queue leaves the pointer
  \<open>NULL\<close>, and the next line dereferences it.
\<close>

definition CompileNext :: "config \<Rightarrow> thread \<Rightarrow> coordinator \<Rightarrow> error + coordinator" where
  "CompileNext cfg t s =
     (case input_queue s of
        [] \<Rightarrow> Inl NullDereference
      | optimizing_compiler # rest \<Rightarrow>
          let s1 = s\<lparr>input_queue := rest,
                     trace := trace s @ [InputDequeue t optimizing_compiler]\<rparr>;
              s2 = s1\<lparr>queue_length := Barrier_AtomicIncrement (queue_length s1) (- 1)\<rparr>
          in
          if DEBUG cfg \<and> \<not> IsInRecompileQueue (heap s2 (closure optimizing_compiler))
          then Inl AssertionFailed
          else
            let status = OptimizeGraph optimizing_compiler;
                s3 = s2\<lparr>trace := trace s2 @ [Optimize t optimizing_compiler]\<rparr>
            in
            if DEBUG cfg \<and> \<not> status \<noteq> FAILED then Inl AssertionFailed
            else
              let s4 = s3\<lparr>output_queue := output_queue s3 @ [optimizing_compiler],
                         trace := trace s3 @ [OutputEnqueue t optimizing_compiler]\<rparr>
              in
              if DEBUG cfg \<and> \<not> IsInRecompileQueue (heap s4 (closure optimizing_compiler))
              then Inl AssertionFailed
              else
                Inr (s4\<lparr>heap := (heap s4)(closure optimizing_compiler :=
                                MarkForInstallingRecompiledCode
                                  (heap s4 (closure optimizing_compiler))),
                        trace := trace s4 @ [Mark t (closure optimizing_compiler)]\<rparr>))"

text \<open>
  The loop of \<open>InstallOptimizedFunctions\<close>, lines 138 to 157, with the local counter
  \<open>functions_installed\<close> as an argument and a result.
\<close>

function InstallOptimizedFunctions_loop ::
  "config \<Rightarrow> thread \<Rightarrow> nat \<Rightarrow> coordinator \<Rightarrow> error + (nat \<times> coordinator)" where
  "InstallOptimizedFunctions_loop cfg t functions_installed s =
     (if \<not> output_queue s = [] then
        (let compiler = hd (output_queue s) in
         if IsInRecompileQueue (heap s (closure compiler)) then Inr (functions_installed, s)
         else
           let s1 = s\<lparr>output_queue := tl (output_queue s)\<rparr>;
               s2 = InstallOptimizedCode t compiler s1
           in
           if DEBUG cfg \<and> \<not> \<not> IsInRecompileQueue (heap s2 (closure compiler))
           then Inl AssertionFailed
           else InstallOptimizedFunctions_loop cfg t (functions_installed + 1) s2)
      else Inr (functions_installed, s))"
  by pat_completeness auto
termination
  by (relation "measure (\<lambda>(cfg, t, n, s). length (output_queue s))")
     (auto simp: InstallOptimizedCode_def)

declare InstallOptimizedFunctions_loop.simps [simp del]

definition InstallOptimizedFunctions :: "config \<Rightarrow> thread \<Rightarrow> coordinator \<Rightarrow> error + coordinator" where
  "InstallOptimizedFunctions cfg t s =
     (if DEBUG cfg \<and> \<not> \<not> IsOptimizerThread cfg t then Inl AssertionFailed
      else
        (case InstallOptimizedFunctions_loop cfg t 0 s of
           Inl e \<Rightarrow> Inl e
         | Inr (functions_installed, s') \<Rightarrow> Inr s'))"

text \<open>\<open>QueueForOptimization\<close>, lines 161 to 168.\<close>

definition QueueForOptimization ::
  "config \<Rightarrow> thread \<Rightarrow> OptimizingCompiler \<Rightarrow> coordinator \<Rightarrow> error + coordinator" where
  "QueueForOptimization cfg t optimizing_compiler s =
     (if DEBUG cfg \<and> \<not> IsQueueAvailable cfg s then Inl AssertionFailed
      else if DEBUG cfg \<and> \<not> \<not> IsOptimizerThread cfg t then Inl AssertionFailed
      else
        let s1 = s\<lparr>queue_length := Barrier_AtomicIncrement (queue_length s) 1\<rparr>;
            s2 = s1\<lparr>input_queue := input_queue s1 @ [optimizing_compiler],
                     trace := trace s1 @ [InputEnqueue t optimizing_compiler]\<rparr>
        in Inr (s2\<lparr>input_queue_semaphore := input_queue_semaphore s2 + 1\<rparr>))"

text \<open>
  What one call of \<open>InstallOptimizedFunctions\<close> does when it installs the jobs \<open>js\<close> from the
  front of the output queue, and the test of line 141 read as "eligible".
\<close>

definition eligible :: "coordinator \<Rightarrow> OptimizingCompiler \<Rightarrow> bool" where
  "eligible s compiler = (\<not> IsInRecompileQueue (heap s (closure compiler)))"

definition install_all :: "thread \<Rightarrow> OptimizingCompiler list \<Rightarrow> coordinator \<Rightarrow> coordinator" where
  "install_all t js s =
     s\<lparr>output_queue := drop (length js) (output_queue s),
       heap := fold (\<lambda>j h. h(closure j := ActualCode)) js (heap s),
       trace := trace s @ map (Install t) js\<rparr>"

lemma eligible_after_install:
  "eligible s c \<Longrightarrow> eligible (InstallOptimizedCode t c (s\<lparr>output_queue := q\<rparr>)) j = eligible s j"
  by (simp add: eligible_def InstallOptimizedCode_def IsInRecompileQueue_def)

lemma InstallOptimizedFunctions_loop_eq:
  "InstallOptimizedFunctions_loop cfg t n s =
     Inr (n + length (takeWhile (eligible s) (output_queue s)),
          install_all t (takeWhile (eligible s) (output_queue s)) s)"
proof (induction "output_queue s" arbitrary: n s)
  case Nil
  then show ?case
    by (subst InstallOptimizedFunctions_loop.simps) (simp add: install_all_def)
next
  case (Cons c q)
  let ?s2 = "InstallOptimizedCode t c (s\<lparr>output_queue := q\<rparr>)"
  have oq: "output_queue s = c # q" using Cons.hyps(2) by simp
  show ?case
  proof (cases "eligible s c")
    case False
    then show ?thesis using oq
      by (subst InstallOptimizedFunctions_loop.simps) (simp add: eligible_def install_all_def)
  next
    case True
    have q2: "q = output_queue ?s2" by (simp add: InstallOptimizedCode_def)
    have same: "takeWhile (eligible ?s2) q = takeWhile (eligible s) q"
      using eligible_after_install [OF True] by (intro takeWhile_cong) auto
    have unfold: "InstallOptimizedFunctions_loop cfg t n s =
                InstallOptimizedFunctions_loop cfg t (n + 1) ?s2"
      using oq True
      by (subst InstallOptimizedFunctions_loop.simps)
         (simp add: eligible_def Let_def InstallOptimizedCode_def IsInRecompileQueue_def)
    have "InstallOptimizedFunctions_loop cfg t (n + 1) ?s2 =
          Inr (n + 1 + length (takeWhile (eligible ?s2) (output_queue ?s2)),
               install_all t (takeWhile (eligible ?s2) (output_queue ?s2)) ?s2)"
      using Cons.hyps(1) [OF q2] .
    then show ?thesis
      using unfold oq True same q2
      by (simp add: install_all_def InstallOptimizedCode_def)
  qed
qed

lemma InstallOptimizedFunctions_eq:
  "InstallOptimizedFunctions cfg ExecutionThread s =
     Inr (install_all ExecutionThread (takeWhile (eligible s) (output_queue s)) s)"
  by (simp add: InstallOptimizedFunctions_def IsOptimizerThread_def
      InstallOptimizedFunctions_loop_eq)

lemma CompileNext_Inr:
  assumes "CompileNext cfg t s = Inr s'"
  shows "input_queue s \<noteq> []"
    and "input_queue s' = tl (input_queue s)"
    and "queue_length s' = queue_length s - 1"
    and "output_queue s' = output_queue s @ [hd (input_queue s)]"
  using assms
  by (auto simp: CompileNext_def Let_def Barrier_AtomicIncrement_def
      split: list.splits if_splits)

text \<open>
  \<open>Stop\<close>, lines 105 to 123, in two halves: up to the signal that wakes the worker, and
  from the return of \<open>stop_semaphore_->Wait()\<close> on. Between the two the execution thread is
  blocked until the worker signals \<open>stop_semaphore_\<close>.
\<close>

definition Stop_before_Wait :: "config \<Rightarrow> thread \<Rightarrow> coordinator \<Rightarrow> error + coordinator" where
  "Stop_before_Wait cfg t s =
     (if DEBUG cfg \<and> \<not> \<not> IsOptimizerThread cfg t then Inl AssertionFailed
      else
        let s1 = s\<lparr>stop_thread := True\<rparr>
        in Inr (s1\<lparr>input_queue_semaphore := input_queue_semaphore s1 + 1\<rparr>))"

function Stop_loop :: "config \<Rightarrow> thread \<Rightarrow> coordinator \<Rightarrow> error + coordinator" where
  "Stop_loop cfg t s =
     (if 0 <s queue_length s then
        (case CompileNext cfg t s of
           Inl e \<Rightarrow> Inl e
         | Inr s1 \<Rightarrow>
             (case InstallOptimizedFunctions cfg t s1 of
                Inl e \<Rightarrow> Inl e
              | Inr s2 \<Rightarrow> Stop_loop cfg t s2))
      else Inr s)"
  by pat_completeness auto
termination
proof (relation "measure (\<lambda>(cfg, t, s). length (input_queue s))")
  show "wf (measure (\<lambda>(cfg, t, s). length (input_queue s)))"
    by simp
next
  fix cfg t s s1 s2
  assume c: "CompileNext cfg t s = Inr s1"
    and i: "InstallOptimizedFunctions cfg t s1 = Inr s2"
  have "input_queue s2 = input_queue s1"
    using i
    by (auto simp: InstallOptimizedFunctions_def InstallOptimizedFunctions_loop_eq
        install_all_def split: if_splits)
  then have "length (input_queue s2) < length (input_queue s)"
    using CompileNext_Inr(1,2) [OF c] by simp
  then show "((cfg, t, s2), (cfg, t, s)) \<in> measure (\<lambda>(cfg, t, s). length (input_queue s))"
    by simp
qed

declare Stop_loop.simps [simp del]

definition Stop_after_Wait :: "config \<Rightarrow> thread \<Rightarrow> coordinator \<Rightarrow> error + coordinator" where
  "Stop_after_Wait cfg t s =
     (if FLAG_parallel_recompilation_delay cfg \<noteq> 0 then
        (case InstallOptimizedFunctions cfg t s of
           Inl e \<Rightarrow> Inl e
         | Inr s1 \<Rightarrow> Stop_loop cfg t s1)
      else Inr s)"

subsection \<open>The two threads, one atomic step at a time\<close>

text \<open>
  Where a thread stands inside \<open>CompileNext\<close>: before the statement of line 81 (dequeue),
  82 (decrement), 84 to 89 (compile), 91 (publish) or 98 to 101 (mark). The job dequeued is
  the local variable \<open>optimizing_compiler\<close>.
\<close>

datatype compile_pc =
    C_Dequeue
  | C_Decrement OptimizingCompiler
  | C_OptimizeGraph OptimizingCompiler
  | C_Enqueue OptimizingCompiler
  | C_Mark OptimizingCompiler

text \<open>One statement of \<open>CompileNext\<close>; the new program counter is \<open>None\<close> on return.\<close>

definition CompileNext_step ::
  "config \<Rightarrow> thread \<Rightarrow> compile_pc \<Rightarrow> coordinator \<Rightarrow> error + (compile_pc option \<times> coordinator)" where
  "CompileNext_step cfg t pc s =
     (case pc of
        C_Dequeue \<Rightarrow>
          (case input_queue s of
             [] \<Rightarrow> Inl NullDereference
           | optimizing_compiler # rest \<Rightarrow>
               Inr (Some (C_Decrement optimizing_compiler),
                    s\<lparr>input_queue := rest,
                      trace := trace s @ [InputDequeue t optimizing_compiler]\<rparr>))
      | C_Decrement optimizing_compiler \<Rightarrow>
          Inr (Some (C_OptimizeGraph optimizing_compiler),
               s\<lparr>queue_length := Barrier_AtomicIncrement (queue_length s) (- 1)\<rparr>)
      | C_OptimizeGraph optimizing_compiler \<Rightarrow>
          if DEBUG cfg \<and> \<not> IsInRecompileQueue (heap s (closure optimizing_compiler))
          then Inl AssertionFailed
          else if DEBUG cfg \<and> \<not> OptimizeGraph optimizing_compiler \<noteq> FAILED
          then Inl AssertionFailed
          else Inr (Some (C_Enqueue optimizing_compiler),
                    s\<lparr>trace := trace s @ [Optimize t optimizing_compiler]\<rparr>)
      | C_Enqueue optimizing_compiler \<Rightarrow>
          Inr (Some (C_Mark optimizing_compiler),
               s\<lparr>output_queue := output_queue s @ [optimizing_compiler],
                 trace := trace s @ [OutputEnqueue t optimizing_compiler]\<rparr>)
      | C_Mark optimizing_compiler \<Rightarrow>
          if DEBUG cfg \<and> \<not> IsInRecompileQueue (heap s (closure optimizing_compiler))
          then Inl AssertionFailed
          else Inr (None,
                    s\<lparr>heap := (heap s)(closure optimizing_compiler :=
                                MarkForInstallingRecompiledCode
                                  (heap s (closure optimizing_compiler))),
                      trace := trace s @ [Mark t (closure optimizing_compiler)]\<rparr>))"

text \<open>
  The optimizer thread in \<open>Run\<close>: blocked in \<open>input_queue_semaphore_->Wait()\<close> (line 50),
  about to load \<open>stop_thread_\<close> (line 58), about to signal \<open>stop_semaphore_\<close> (line 59),
  inside \<open>CompileNext\<close> (line 69), or returned (line 63).
\<close>

datatype worker_pc = W_Wait | W_Load | W_Signal | W_CompileNext compile_pc | W_Return

text \<open>
  The execution thread: between calls, or before a statement of \<open>QueueForOptimization\<close>
  (lines 165, 166, 167), of \<open>InstallOptimizedFunctions\<close> (the test of lines 138 to 145, the
  dequeue and installation of lines 146 to 156) or of \<open>Stop\<close> (lines 107, 108, 109, 111,
  119, 120 and 125). \<open>InstallOptimizedFunctions\<close> is called from outside and from \<open>Stop\<close>,
  and returns to where it was called from.
\<close>

datatype return_to = To_Idle | To_Stop_Loop

datatype main_pc =
    M_Idle
  | M_Queue_Increment OptimizingCompiler
  | M_Queue_Enqueue OptimizingCompiler
  | M_Queue_Signal
  | M_Install_Loop return_to
  | M_Install_Dequeue return_to
  | M_Stop_Store
  | M_Stop_Signal
  | M_Stop_Wait
  | M_Stop_Flag
  | M_Stop_Loop
  | M_Stop_CompileNext compile_pc
  | M_Stop_Trace

record system =
  shared :: coordinator
  worker :: worker_pc
  main :: main_pc
  failure :: "error option"

definition return_pc :: "return_to \<Rightarrow> main_pc" where
  "return_pc r = (case r of To_Idle \<Rightarrow> M_Idle | To_Stop_Loop \<Rightarrow> M_Stop_Loop)"

text \<open>
  One step of the optimizer thread. \<open>None\<close>: the thread cannot move (it is blocked on the
  semaphore, or has returned). A failed assertion or a null dereference ends the process:
  it is recorded in \<open>failure\<close>, and no thread moves afterwards.
\<close>

definition worker_step :: "config \<Rightarrow> system \<Rightarrow> system option" where
  "worker_step cfg sys =
     (let s = shared sys in
      case worker sys of
        W_Wait \<Rightarrow>
          if input_queue_semaphore s = 0 then None
          else Some (sys\<lparr>shared := s\<lparr>input_queue_semaphore := input_queue_semaphore s - 1\<rparr>,
                         worker := W_Load\<rparr>)
      | W_Load \<Rightarrow>
          if stop_thread s then Some (sys\<lparr>worker := W_Signal\<rparr>)
          else Some (sys\<lparr>worker := W_CompileNext C_Dequeue\<rparr>)
      | W_Signal \<Rightarrow>
          Some (sys\<lparr>shared := s\<lparr>stop_semaphore := stop_semaphore s + 1\<rparr>,
                    worker := W_Return\<rparr>)
      | W_CompileNext pc \<Rightarrow>
          (case CompileNext_step cfg OptimizerThread pc s of
             Inl e \<Rightarrow> Some (sys\<lparr>failure := Some e\<rparr>)
           | Inr (Some pc', s') \<Rightarrow> Some (sys\<lparr>shared := s', worker := W_CompileNext pc'\<rparr>)
           | Inr (None, s') \<Rightarrow> Some (sys\<lparr>shared := s', worker := W_Wait\<rparr>))
      | W_Return \<Rightarrow> None)"

text \<open>The calls that the execution thread can make when it is between calls.\<close>

datatype call = Call_QueueForOptimization OptimizingCompiler | Call_InstallOptimizedFunctions | Call_Stop

definition call_step :: "config \<Rightarrow> call \<Rightarrow> system \<Rightarrow> system option" where
  "call_step cfg c sys =
     (if main sys \<noteq> M_Idle then None
      else
        case c of
          Call_QueueForOptimization optimizing_compiler \<Rightarrow>
            if DEBUG cfg \<and> \<not> IsQueueAvailable cfg (shared sys)
            then Some (sys\<lparr>failure := Some AssertionFailed\<rparr>)
            else if DEBUG cfg \<and> \<not> \<not> IsOptimizerThread cfg ExecutionThread
            then Some (sys\<lparr>failure := Some AssertionFailed\<rparr>)
            else Some (sys\<lparr>main := M_Queue_Increment optimizing_compiler\<rparr>)
        | Call_InstallOptimizedFunctions \<Rightarrow>
            if DEBUG cfg \<and> \<not> \<not> IsOptimizerThread cfg ExecutionThread
            then Some (sys\<lparr>failure := Some AssertionFailed\<rparr>)
            else Some (sys\<lparr>main := M_Install_Loop To_Idle\<rparr>)
        | Call_Stop \<Rightarrow>
            if DEBUG cfg \<and> \<not> \<not> IsOptimizerThread cfg ExecutionThread
            then Some (sys\<lparr>failure := Some AssertionFailed\<rparr>)
            else Some (sys\<lparr>main := M_Stop_Store\<rparr>))"

text \<open>One step of the execution thread inside a call.\<close>

definition main_step :: "config \<Rightarrow> system \<Rightarrow> system option" where
  "main_step cfg sys =
     (let s = shared sys in
      case main sys of
        M_Idle \<Rightarrow> None
      | M_Queue_Increment optimizing_compiler \<Rightarrow>
          Some (sys\<lparr>shared := s\<lparr>queue_length := Barrier_AtomicIncrement (queue_length s) 1\<rparr>,
                    main := M_Queue_Enqueue optimizing_compiler\<rparr>)
      | M_Queue_Enqueue optimizing_compiler \<Rightarrow>
          Some (sys\<lparr>shared := s\<lparr>input_queue := input_queue s @ [optimizing_compiler],
                                trace := trace s @ [InputEnqueue ExecutionThread optimizing_compiler]\<rparr>,
                    main := M_Queue_Signal\<rparr>)
      | M_Queue_Signal \<Rightarrow>
          Some (sys\<lparr>shared := s\<lparr>input_queue_semaphore := input_queue_semaphore s + 1\<rparr>,
                    main := M_Idle\<rparr>)
      | M_Install_Loop r \<Rightarrow>
          if \<not> output_queue s = [] then
            (let compiler = hd (output_queue s) in
             if IsInRecompileQueue (heap s (closure compiler))
             then Some (sys\<lparr>main := return_pc r\<rparr>)
             else Some (sys\<lparr>main := M_Install_Dequeue r\<rparr>))
          else Some (sys\<lparr>main := return_pc r\<rparr>)
      | M_Install_Dequeue r \<Rightarrow>
          (case output_queue s of
             [] \<Rightarrow> Some (sys\<lparr>failure := Some NullDereference\<rparr>)
           | compiler # rest \<Rightarrow>
               let s1 = s\<lparr>output_queue := rest\<rparr>;
                   s2 = InstallOptimizedCode ExecutionThread compiler s1
               in
               if DEBUG cfg \<and> \<not> \<not> IsInRecompileQueue (heap s2 (closure compiler))
               then Some (sys\<lparr>failure := Some AssertionFailed\<rparr>)
               else Some (sys\<lparr>shared := s2, main := M_Install_Loop r\<rparr>))
      | M_Stop_Store \<Rightarrow>
          Some (sys\<lparr>shared := s\<lparr>stop_thread := True\<rparr>, main := M_Stop_Signal\<rparr>)
      | M_Stop_Signal \<Rightarrow>
          Some (sys\<lparr>shared := s\<lparr>input_queue_semaphore := input_queue_semaphore s + 1\<rparr>,
                    main := M_Stop_Wait\<rparr>)
      | M_Stop_Wait \<Rightarrow>
          if stop_semaphore s = 0 then None
          else Some (sys\<lparr>shared := s\<lparr>stop_semaphore := stop_semaphore s - 1\<rparr>,
                         main := M_Stop_Flag\<rparr>)
      | M_Stop_Flag \<Rightarrow>
          if FLAG_parallel_recompilation_delay cfg \<noteq> 0
          then Some (sys\<lparr>main := M_Install_Loop To_Stop_Loop\<rparr>)
          else Some (sys\<lparr>main := M_Stop_Trace\<rparr>)
      | M_Stop_Loop \<Rightarrow>
          if 0 <s queue_length s then Some (sys\<lparr>main := M_Stop_CompileNext C_Dequeue\<rparr>)
          else Some (sys\<lparr>main := M_Stop_Trace\<rparr>)
      | M_Stop_CompileNext pc \<Rightarrow>
          (case CompileNext_step cfg ExecutionThread pc s of
             Inl e \<Rightarrow> Some (sys\<lparr>failure := Some e\<rparr>)
           | Inr (Some pc', s') \<Rightarrow> Some (sys\<lparr>shared := s', main := M_Stop_CompileNext pc'\<rparr>)
           | Inr (None, s') \<Rightarrow> Some (sys\<lparr>shared := s', main := M_Install_Loop To_Stop_Loop\<rparr>))
      | M_Stop_Trace \<Rightarrow> Some (sys\<lparr>main := M_Idle\<rparr>))"

text \<open>
  A schedule names, move by move, which thread takes its next step, and which call the
  execution thread makes when it is between calls. \<open>exec\<close> runs a schedule; it is \<open>None\<close>
  when the schedule asks for a move that is not possible.
\<close>

datatype move = WorkerStep | MainStep | MainCall call

definition step :: "config \<Rightarrow> move \<Rightarrow> system \<Rightarrow> system option" where
  "step cfg m sys =
     (if failure sys \<noteq> None then None
      else
        case m of
          WorkerStep \<Rightarrow> worker_step cfg sys
        | MainStep \<Rightarrow> main_step cfg sys
        | MainCall c \<Rightarrow> call_step cfg c sys)"

fun exec :: "config \<Rightarrow> move list \<Rightarrow> system \<Rightarrow> system option" where
  "exec cfg [] sys = Some sys"
| "exec cfg (m # ms) sys =
     (case step cfg m sys of None \<Rightarrow> None | Some sys' \<Rightarrow> exec cfg ms sys')"

text \<open>
  The state after construction: empty queues, counter zero, flag clear, semaphores at zero,
  the optimizer thread started and waiting, the execution thread between calls. The
  function records are given.
\<close>

definition initial :: "(nat \<Rightarrow> JSFunction) \<Rightarrow> system" where
  "initial h =
     \<lparr>shared = \<lparr>input_queue = [], output_queue = [], queue_length = 0, stop_thread = False,
                input_queue_semaphore = 0, stop_semaphore = 0, heap = h, trace = []\<rparr>,
      worker = W_Wait, main = M_Idle, failure = None\<rparr>"

section \<open>Observations, invariants and measures\<close>

subsection \<open>Reading the log\<close>

text \<open>
  The jobs enqueued into the input queue, dequeued from it by a thread, compiled, published
  (enqueued into the output queue) and installed, each in the order of the log; and the
  part of the log that is a thread's own.
\<close>

fun enqueued_by :: "event \<Rightarrow> OptimizingCompiler list" where
  "enqueued_by (InputEnqueue t job) = [job]"
| "enqueued_by _ = []"

fun dequeued_by :: "thread \<Rightarrow> event \<Rightarrow> OptimizingCompiler list" where
  "dequeued_by t (InputDequeue t' job) = (if t' = t then [job] else [])"
| "dequeued_by t _ = []"

fun compiled_by :: "event \<Rightarrow> OptimizingCompiler list" where
  "compiled_by (Optimize t job) = [job]"
| "compiled_by _ = []"

fun published_by :: "event \<Rightarrow> OptimizingCompiler list" where
  "published_by (OutputEnqueue t job) = [job]"
| "published_by _ = []"

fun installed_by :: "event \<Rightarrow> OptimizingCompiler list" where
  "installed_by (Install t job) = [job]"
| "installed_by _ = []"

fun actor :: "event \<Rightarrow> thread" where
  "actor (InputEnqueue t job) = t"
| "actor (InputDequeue t job) = t"
| "actor (Optimize t job) = t"
| "actor (OutputEnqueue t job) = t"
| "actor (Mark t f) = t"
| "actor (Install t job) = t"

definition enqueued :: "event list \<Rightarrow> OptimizingCompiler list" where
  "enqueued tr = concat (map enqueued_by tr)"

definition dequeued :: "thread \<Rightarrow> event list \<Rightarrow> OptimizingCompiler list" where
  "dequeued t tr = concat (map (dequeued_by t) tr)"

definition compiled :: "event list \<Rightarrow> OptimizingCompiler list" where
  "compiled tr = concat (map compiled_by tr)"

definition published :: "event list \<Rightarrow> OptimizingCompiler list" where
  "published tr = concat (map published_by tr)"

definition installed :: "event list \<Rightarrow> OptimizingCompiler list" where
  "installed tr = concat (map installed_by tr)"

definition own :: "thread \<Rightarrow> event list \<Rightarrow> event list" where
  "own t tr = filter (\<lambda>e. actor e = t) tr"

text \<open>
  The functions marked for installing, in the order of the log.
\<close>

fun marked_by :: "event \<Rightarrow> nat list" where
  "marked_by (Mark t f) = [f]"
| "marked_by _ = []"

definition marked :: "event list \<Rightarrow> nat list" where
  "marked tr = concat (map marked_by tr)"

subsection \<open>What the program counters tell\<close>

text \<open>
  A thread inside \<open>CompileNext\<close> holds the job it has dequeued and not yet published
  (\<open>holding\<close>); of these, the job at line 91 has been compiled (\<open>compiled_holding\<close>). The
  execution thread is \<open>after_Wait\<close> once \<open>stop_semaphore_->Wait()\<close> has returned, and
  \<open>draining\<close> inside the fallback of lines 116 to 122.
\<close>

fun holding :: "compile_pc \<Rightarrow> OptimizingCompiler list" where
  "holding C_Dequeue = []"
| "holding (C_Decrement job) = [job]"
| "holding (C_OptimizeGraph job) = [job]"
| "holding (C_Enqueue job) = [job]"
| "holding (C_Mark job) = []"

fun worker_holding :: "worker_pc \<Rightarrow> OptimizingCompiler list" where
  "worker_holding (W_CompileNext pc) = holding pc"
| "worker_holding _ = []"

fun main_holding :: "main_pc \<Rightarrow> OptimizingCompiler list" where
  "main_holding (M_Stop_CompileNext pc) = holding pc"
| "main_holding _ = []"

fun compiled_holding :: "compile_pc \<Rightarrow> OptimizingCompiler list" where
  "compiled_holding (C_Enqueue job) = [job]"
| "compiled_holding _ = []"

fun worker_compiled :: "worker_pc \<Rightarrow> OptimizingCompiler list" where
  "worker_compiled (W_CompileNext pc) = compiled_holding pc"
| "worker_compiled _ = []"

fun main_compiled :: "main_pc \<Rightarrow> OptimizingCompiler list" where
  "main_compiled (M_Stop_CompileNext pc) = compiled_holding pc"
| "main_compiled _ = []"

fun after_Wait :: "main_pc \<Rightarrow> bool" where
  "after_Wait M_Stop_Flag = True"
| "after_Wait (M_Install_Loop r) = (r = To_Stop_Loop)"
| "after_Wait (M_Install_Dequeue r) = (r = To_Stop_Loop)"
| "after_Wait M_Stop_Loop = True"
| "after_Wait (M_Stop_CompileNext pc) = True"
| "after_Wait M_Stop_Trace = True"
| "after_Wait _ = False"

fun draining :: "main_pc \<Rightarrow> bool" where
  "draining (M_Install_Loop r) = (r = To_Stop_Loop)"
| "draining (M_Install_Dequeue r) = (r = To_Stop_Loop)"
| "draining M_Stop_Loop = True"
| "draining (M_Stop_CompileNext pc) = True"
| "draining _ = False"

fun is_call :: "move \<Rightarrow> bool" where
  "is_call (MainCall c) = True"
| "is_call _ = False"

subsection \<open>Invariants of the reachable states\<close>

text \<open>
  The stop handshake: the acknowledgement is signalled only by a worker that returns, the
  execution thread is past the wait only then, and both happen only with the flag set.
\<close>

definition handshake :: "system \<Rightarrow> bool" where
  "handshake sys =
     ((0 < stop_semaphore (shared sys) \<longrightarrow> worker sys = W_Return) \<and>
      (after_Wait (main sys) \<longrightarrow> worker sys = W_Return) \<and>
      (worker sys = W_Signal \<or> worker sys = W_Return \<longrightarrow> stop_thread (shared sys)) \<and>
      (main sys = M_Stop_Signal \<or> main sys = M_Stop_Wait \<or> after_Wait (main sys)
         \<longrightarrow> stop_thread (shared sys)))"

text \<open>
  Conservation: the jobs enqueued so far are those installed, those in the output queue,
  the one being compiled and those in the input queue, in this order.
\<close>

definition pipeline :: "system \<Rightarrow> OptimizingCompiler list" where
  "pipeline sys =
     output_queue (shared sys) @ worker_holding (worker sys) @ main_holding (main sys) @
     input_queue (shared sys)"

definition conservation :: "system \<Rightarrow> bool" where
  "conservation sys =
     (enqueued (trace (shared sys)) = installed (trace (shared sys)) @ pipeline sys \<and>
      compiled (trace (shared sys)) =
        installed (trace (shared sys)) @ output_queue (shared sys) @
        worker_compiled (worker sys) @ main_compiled (main sys) \<and>
      published (trace (shared sys)) =
        installed (trace (shared sys)) @ output_queue (shared sys))"

text \<open>
  The counter against the input queue: a thread is ahead by one between the increment
  and the enqueue of \<open>QueueForOptimization\<close>, and between the dequeue and the decrement of
  \<open>CompileNext\<close>.
\<close>

fun uncounted :: "compile_pc \<Rightarrow> nat" where
  "uncounted (C_Decrement job) = 1"
| "uncounted _ = 0"

fun main_ahead :: "main_pc \<Rightarrow> nat" where
  "main_ahead (M_Queue_Enqueue job) = 1"
| "main_ahead (M_Stop_CompileNext pc) = uncounted pc"
| "main_ahead _ = 0"

fun worker_ahead :: "worker_pc \<Rightarrow> nat" where
  "worker_ahead (W_CompileNext pc) = uncounted pc"
| "worker_ahead _ = 0"

definition counter :: "system \<Rightarrow> bool" where
  "counter sys =
     (queue_length (shared sys) =
        of_nat (length (input_queue (shared sys)) + main_ahead (main sys) +
                worker_ahead (worker sys)))"

text \<open>
  The semaphore of the input queue against the queue, while the worker lives: one token
  per queued job and one for the signal of \<open>Stop\<close>, less the token the worker has taken
  and not yet turned into a dequeue.
\<close>

fun worker_token :: "worker_pc \<Rightarrow> nat" where
  "worker_token W_Load = 1"
| "worker_token (W_CompileNext C_Dequeue) = 1"
| "worker_token _ = 0"

fun worker_alive :: "worker_pc \<Rightarrow> bool" where
  "worker_alive W_Signal = False"
| "worker_alive W_Return = False"
| "worker_alive _ = True"

fun unsignalled :: "main_pc \<Rightarrow> nat" where
  "unsignalled M_Queue_Signal = 1"
| "unsignalled _ = 0"

fun stop_token :: "main_pc \<Rightarrow> nat" where
  "stop_token M_Stop_Wait = 1"
| "stop_token _ = 0"

definition tokens :: "system \<Rightarrow> bool" where
  "tokens sys =
     (worker_alive (worker sys) \<longrightarrow>
        input_queue_semaphore (shared sys) + worker_token (worker sys) + unsignalled (main sys) =
          length (input_queue (shared sys)) + stop_token (main sys) \<and>
        (worker sys \<noteq> W_Load \<longrightarrow> stop_token (main sys) \<le> input_queue_semaphore (shared sys)))"

text \<open>
  Every job in the output queue is eligible, but one whose function a thread is about to
  mark (line 101); and between the test of line 141 and the dequeue of line 146 the front
  job stays eligible.
\<close>

fun mark_target :: "compile_pc \<Rightarrow> nat set" where
  "mark_target (C_Mark job) = {closure job}"
| "mark_target _ = {}"

fun worker_marking :: "worker_pc \<Rightarrow> nat set" where
  "worker_marking (W_CompileNext pc) = mark_target pc"
| "worker_marking _ = {}"

fun main_marking :: "main_pc \<Rightarrow> nat set" where
  "main_marking (M_Stop_CompileNext pc) = mark_target pc"
| "main_marking _ = {}"

definition published_marked :: "system \<Rightarrow> bool" where
  "published_marked sys =
     (\<forall>job \<in> set (output_queue (shared sys)).
        heap (shared sys) (closure job) = InRecompileQueue \<longrightarrow>
        closure job \<in> worker_marking (worker sys) \<union> main_marking (main sys))"

definition front_eligible :: "system \<Rightarrow> bool" where
  "front_eligible sys =
     (\<forall>r. main sys = M_Install_Dequeue r \<longrightarrow>
        output_queue (shared sys) \<noteq> [] \<and>
        heap (shared sys) (closure (hd (output_queue (shared sys)))) \<noteq> InRecompileQueue)"

text \<open>
  The fallback of \<open>Stop\<close> runs only with the delay flag set, and calls \<open>CompileNext\<close>
  only on a non-empty input queue.
\<close>

definition drain_guard :: "config \<Rightarrow> system \<Rightarrow> bool" where
  "drain_guard cfg sys =
     ((draining (main sys) \<longrightarrow> FLAG_parallel_recompilation_delay cfg \<noteq> 0) \<and>
      (main sys = M_Stop_CompileNext C_Dequeue \<longrightarrow> input_queue (shared sys) \<noteq> []))"

definition invariant :: "config \<Rightarrow> system \<Rightarrow> bool" where
  "invariant cfg sys =
     (handshake sys \<and> conservation sys \<and> counter sys \<and> tokens sys \<and>
      published_marked sys \<and> front_eligible sys \<and> drain_guard cfg sys)"

text \<open>
  The order of publishing and marking: wherever the log has a mark, the last action of
  the marking thread before it was to publish a job of the marked function.
\<close>

definition flips_follow :: "event list \<Rightarrow> bool" where
  "flips_follow tr =
     (\<forall>pre t f post. tr = pre @ Mark t f # post \<longrightarrow>
        (\<exists>before job. own t pre = before @ [OutputEnqueue t job] \<and> closure job = f))"

fun marking_job :: "compile_pc \<Rightarrow> OptimizingCompiler option" where
  "marking_job (C_Mark job) = Some job"
| "marking_job _ = None"

fun worker_marking_job :: "worker_pc \<Rightarrow> OptimizingCompiler option" where
  "worker_marking_job (W_CompileNext pc) = marking_job pc"
| "worker_marking_job _ = None"

fun main_marking_job :: "main_pc \<Rightarrow> OptimizingCompiler option" where
  "main_marking_job (M_Stop_CompileNext pc) = marking_job pc"
| "main_marking_job _ = None"

definition last_published :: "thread \<Rightarrow> OptimizingCompiler option \<Rightarrow> event list \<Rightarrow> bool" where
  "last_published t j tr =
     (case j of None \<Rightarrow> True
      | Some job \<Rightarrow> (\<exists>before. own t tr = before @ [OutputEnqueue t job]))"

definition ordering :: "system \<Rightarrow> bool" where
  "ordering sys =
     (flips_follow (trace (shared sys)) \<and>
      last_published OptimizerThread (worker_marking_job (worker sys)) (trace (shared sys)) \<and>
      last_published ExecutionThread (main_marking_job (main sys)) (trace (shared sys)))"

text \<open>
  The count of markings: the functions marked so far are those of the jobs published so
  far, in the same order, but for the job a thread has published and is about to mark
  (line 101); and a function once marked no longer reads as in the recompile queue.
\<close>

fun to_mark :: "compile_pc \<Rightarrow> OptimizingCompiler list" where
  "to_mark (C_Mark job) = [job]"
| "to_mark _ = []"


fun main_to_mark :: "main_pc \<Rightarrow> OptimizingCompiler list" where
  "main_to_mark (M_Stop_CompileNext pc) = to_mark pc"
| "main_to_mark _ = []"


subsection \<open>Measures\<close>

text \<open>
  How many more jobs the optimizer thread dequeues once the stop flag is set; how many
  steps of the execution thread a call of \<open>InstallOptimizedFunctions\<close> has left; how many
  steps the optimizer thread has left until the input queue is empty.
\<close>

fun compiles_left :: "worker_pc \<Rightarrow> nat" where
  "compiles_left (W_CompileNext C_Dequeue) = 1"
| "compiles_left _ = 0"

fun install_budget :: "system \<Rightarrow> nat" where
  "install_budget sys =
     (case main sys of
        M_Install_Loop r \<Rightarrow> 2 * length (pipeline sys) + 1
      | M_Install_Dequeue r \<Rightarrow> 2 * length (pipeline sys)
      | _ \<Rightarrow> 0)"







subsection \<open>The contract on queued jobs\<close>

text \<open>
  In a debug build \<open>CompileNext\<close> asserts that the function of the job it dequeued is in
  the recompile queue, before compiling and again before marking, and that compilation did
  not fail. Jobs meet these assertions when their functions are distinct and in the recompile
  queue, and none fails to compile. In a release build nothing is asked.
\<close>

definition vetted :: "config \<Rightarrow> coordinator \<Rightarrow> OptimizingCompiler list \<Rightarrow> bool" where
  "vetted cfg s jobs =
     (DEBUG cfg \<longrightarrow>
        distinct (map closure jobs) \<and>
        (\<forall>job \<in> set jobs. heap s (closure job) = InRecompileQueue \<and>
                          OptimizeGraph job \<noteq> FAILED))"



text \<open>
  The state after the loop of lines 119 to 122 has compiled and installed \<open>jobs\<close>; the
  states from which the optimizer thread, and then a call from outside \<open>Stop\<close>, bring
  every job in \<open>queued\<close> to installation.
\<close>

definition drained :: "thread \<Rightarrow> OptimizingCompiler list \<Rightarrow> coordinator \<Rightarrow> coordinator" where
  "drained t jobs s =
     s\<lparr>input_queue := [], output_queue := [], queue_length := 0,
       heap := fold (\<lambda>job h. h(closure job := ActualCode)) jobs (heap s),
       trace := trace s @
         concat (map (\<lambda>job. [InputDequeue t job, Optimize t job, OutputEnqueue t job,
                              Mark t (closure job), Install t job]) jobs)\<rparr>"



subsection \<open>Builds, jobs, schedules and states used in the examples\<close>

definition release_build :: config where
  "release_build = \<lparr>DEBUG = False, FLAG_parallel_recompilation = True,
     FLAG_parallel_recompilation_delay = 0, IsQueueAvailable = (\<lambda>s. True)\<rparr>"

definition debug_build :: config where
  "debug_build = \<lparr>DEBUG = True, FLAG_parallel_recompilation = True,
     FLAG_parallel_recompilation_delay = 0, IsQueueAvailable = (\<lambda>s. True)\<rparr>"

definition debug_delay_build :: config where
  "debug_delay_build = \<lparr>DEBUG = True, FLAG_parallel_recompilation = True,
     FLAG_parallel_recompilation_delay = 50, IsQueueAvailable = (\<lambda>s. True)\<rparr>"

definition job_for :: "nat \<Rightarrow> OptimizingCompiler" where
  "job_for f = \<lparr>closure = f, OptimizeGraph = SUCCEEDED\<rparr>"

definition failing_job_for :: "nat \<Rightarrow> OptimizingCompiler" where
  "failing_job_for f = \<lparr>closure = f, OptimizeGraph = FAILED\<rparr>"

definition all_queued :: "nat \<Rightarrow> JSFunction" where
  "all_queued f = InRecompileQueue"

text \<open>
  Both threads at rest: the given queues, and the counter and the semaphore in step.
\<close>

definition idle ::
  "OptimizingCompiler list \<Rightarrow> OptimizingCompiler list \<Rightarrow> (nat \<Rightarrow> JSFunction) \<Rightarrow> coordinator" where
  "idle inq outq h =
     \<lparr>input_queue = inq, output_queue = outq, queue_length = of_nat (length inq),
      stop_thread = False, input_queue_semaphore = length inq, stop_semaphore = 0,
      heap = h, trace = []\<rparr>"

text \<open>
  One job queued and compiled.
\<close>

definition one_job_compiled :: "move list" where
  "one_job_compiled =
     [MainCall (Call_QueueForOptimization (job_for 1)), MainStep, MainStep, MainStep,
      WorkerStep, WorkerStep, WorkerStep, WorkerStep, WorkerStep, WorkerStep, WorkerStep]"

text \<open>
  \<open>Stop\<close> called with one job queued: while the optimizer thread waits, and after it has
  passed the test of the flag; then how each goes on.
\<close>

definition stop_while_waiting :: "move list" where
  "stop_while_waiting =
     [MainCall (Call_QueueForOptimization (job_for 1)), MainStep, MainStep, MainStep,
      MainCall Call_Stop, MainStep, MainStep]"

definition waiting_at_stop :: system where
  "waiting_at_stop =
     \<lparr>shared = \<lparr>input_queue = [job_for 1], output_queue = [], queue_length = 1,
        stop_thread = True, input_queue_semaphore = 2, stop_semaphore = 0, heap = all_queued,
        trace = [InputEnqueue ExecutionThread (job_for 1)]\<rparr>,
      worker = W_Wait, main = M_Stop_Wait, failure = None\<rparr>"

definition acknowledged_with_work :: system where
  "acknowledged_with_work =
     \<lparr>shared = \<lparr>input_queue = [job_for 1], output_queue = [], queue_length = 1,
        stop_thread = True, input_queue_semaphore = 1, stop_semaphore = 1, heap = all_queued,
        trace = [InputEnqueue ExecutionThread (job_for 1)]\<rparr>,
      worker = W_Return, main = M_Stop_Wait, failure = None\<rparr>"

definition stopped_with_work :: system where
  "stopped_with_work =
     \<lparr>shared = \<lparr>input_queue = [job_for 1], output_queue = [], queue_length = 1,
        stop_thread = True, input_queue_semaphore = 1, stop_semaphore = 0, heap = all_queued,
        trace = [InputEnqueue ExecutionThread (job_for 1)]\<rparr>,
      worker = W_Return, main = M_Idle, failure = None\<rparr>"

definition stop_in_flight :: "move list" where
  "stop_in_flight =
     [MainCall (Call_QueueForOptimization (job_for 1)), MainStep, MainStep, MainStep,
      WorkerStep, WorkerStep, MainCall Call_Stop, MainStep, MainStep]"

definition in_flight_at_stop :: system where
  "in_flight_at_stop =
     \<lparr>shared = \<lparr>input_queue = [job_for 1], output_queue = [], queue_length = 1,
        stop_thread = True, input_queue_semaphore = 1, stop_semaphore = 0, heap = all_queued,
        trace = [InputEnqueue ExecutionThread (job_for 1)]\<rparr>,
      worker = W_CompileNext C_Dequeue, main = M_Stop_Wait, failure = None\<rparr>"

definition finish_and_return :: "move list" where
  "finish_and_return =
     [WorkerStep, WorkerStep, WorkerStep, WorkerStep, WorkerStep,
      WorkerStep, WorkerStep, WorkerStep, MainStep, MainStep, MainStep]"

definition returned_after_stop :: system where
  "returned_after_stop =
     \<lparr>shared = \<lparr>input_queue = [], output_queue = [job_for 1], queue_length = 0,
        stop_thread = True, input_queue_semaphore = 0, stop_semaphore = 0,
        heap = all_queued(1 := MarkedForInstalling),
        trace = [InputEnqueue ExecutionThread (job_for 1),
                 InputDequeue OptimizerThread (job_for 1),
                 Optimize OptimizerThread (job_for 1),
                 OutputEnqueue OptimizerThread (job_for 1),
                 Mark OptimizerThread 1]\<rparr>,
      worker = W_Return, main = M_Idle, failure = None\<rparr>"

text \<open>
  Two jobs queued, the first dequeued and counted.
\<close>

definition two_queued_one_taken :: "move list" where
  "two_queued_one_taken =
     [MainCall (Call_QueueForOptimization (job_for 1)), MainStep, MainStep, MainStep,
      MainCall (Call_QueueForOptimization (job_for 2)), MainStep, MainStep, MainStep,
      WorkerStep, WorkerStep, WorkerStep, WorkerStep]"

definition one_left :: system where
  "one_left =
     \<lparr>shared = \<lparr>input_queue = [job_for 2], output_queue = [], queue_length = 1,
        stop_thread = False, input_queue_semaphore = 1, stop_semaphore = 0, heap = all_queued,
        trace = [InputEnqueue ExecutionThread (job_for 1),
                 InputEnqueue ExecutionThread (job_for 2),
                 InputDequeue OptimizerThread (job_for 1)]\<rparr>,
      worker = W_CompileNext (C_OptimizeGraph (job_for 1)), main = M_Idle, failure = None\<rparr>"

text \<open>
  \<open>InstallOptimizedFunctions\<close> called with one job published and one queued, and the
  optimizer thread publishing the second during the call.
\<close>

definition install_called :: "move list" where
  "install_called =
     [MainCall (Call_QueueForOptimization (job_for 1)), MainStep, MainStep, MainStep,
      MainCall (Call_QueueForOptimization (job_for 2)), MainStep, MainStep, MainStep,
      WorkerStep, WorkerStep, WorkerStep, WorkerStep, WorkerStep, WorkerStep, WorkerStep,
      MainCall Call_InstallOptimizedFunctions]"

definition install_entry :: system where
  "install_entry =
     \<lparr>shared = \<lparr>input_queue = [job_for 2], output_queue = [job_for 1], queue_length = 1,
        stop_thread = False, input_queue_semaphore = 1, stop_semaphore = 0,
        heap = all_queued(1 := MarkedForInstalling),
        trace = [InputEnqueue ExecutionThread (job_for 1),
                 InputEnqueue ExecutionThread (job_for 2),
                 InputDequeue OptimizerThread (job_for 1),
                 Optimize OptimizerThread (job_for 1),
                 OutputEnqueue OptimizerThread (job_for 1),
                 Mark OptimizerThread 1]\<rparr>,
      worker = W_Wait, main = M_Install_Loop To_Idle, failure = None\<rparr>"

definition install_overlapped :: "move list" where
  "install_overlapped =
     [MainStep, MainStep,
      WorkerStep, WorkerStep, WorkerStep, WorkerStep, WorkerStep, WorkerStep, WorkerStep,
      MainStep, MainStep, MainStep]"

definition install_exit :: system where
  "install_exit =
     \<lparr>shared = \<lparr>input_queue = [], output_queue = [], queue_length = 0,
        stop_thread = False, input_queue_semaphore = 0, stop_semaphore = 0,
        heap = all_queued(1 := ActualCode, 2 := ActualCode),
        trace = [InputEnqueue ExecutionThread (job_for 1),
                 InputEnqueue ExecutionThread (job_for 2),
                 InputDequeue OptimizerThread (job_for 1),
                 Optimize OptimizerThread (job_for 1),
                 OutputEnqueue OptimizerThread (job_for 1),
                 Mark OptimizerThread 1,
                 Install ExecutionThread (job_for 1),
                 InputDequeue OptimizerThread (job_for 2),
                 Optimize OptimizerThread (job_for 2),
                 OutputEnqueue OptimizerThread (job_for 2),
                 Mark OptimizerThread 2,
                 Install ExecutionThread (job_for 2)]\<rparr>,
      worker = W_Wait, main = M_Idle, failure = None\<rparr>"

text \<open>
  The same call after the test of line 141, and after the dequeue and installation that
  follow it.
\<close>

definition install_tested :: system where
  "install_tested = install_entry\<lparr>main := M_Install_Dequeue To_Idle\<rparr>"

definition install_one :: system where
  "install_one =
     install_entry\<lparr>shared := (shared install_entry)\<lparr>output_queue := [],
         heap := all_queued(1 := ActualCode),
         trace := trace (shared install_entry) @ [Install ExecutionThread (job_for 1)]\<rparr>\<rparr>"

text \<open>
  Three jobs queued; then \<open>Stop\<close> called and acknowledged before any was compiled.
\<close>

definition three_queued :: "move list" where
  "three_queued =
     [MainCall (Call_QueueForOptimization (job_for 1)), MainStep, MainStep, MainStep,
      MainCall (Call_QueueForOptimization (job_for 2)), MainStep, MainStep, MainStep,
      MainCall (Call_QueueForOptimization (job_for 3)), MainStep, MainStep, MainStep]"


definition stop_acknowledged :: "move list" where
  "stop_acknowledged =
     [MainCall Call_Stop, MainStep, MainStep, WorkerStep, WorkerStep, WorkerStep, MainStep]"

definition three_left_at_stop :: system where
  "three_left_at_stop =
     \<lparr>shared = \<lparr>input_queue = [job_for 1, job_for 2, job_for 3], output_queue = [],
        queue_length = 3, stop_thread = True, input_queue_semaphore = 3, stop_semaphore = 0,
        heap = all_queued,
        trace = [InputEnqueue ExecutionThread (job_for 1),
                 InputEnqueue ExecutionThread (job_for 2),
                 InputEnqueue ExecutionThread (job_for 3)]\<rparr>,
      worker = W_Return, main = M_Stop_Flag, failure = None\<rparr>"







section \<open>The steps and what they preserve\<close>

subsection \<open>Schedules\<close>

lemma exec_append:
  "exec cfg (ms @ ms') sys =
     (case exec cfg ms sys of None \<Rightarrow> None | Some sys' \<Rightarrow> exec cfg ms' sys')"
  by (induction ms arbitrary: sys) (auto split: option.splits)

lemma exec_invariant:
  assumes "exec cfg ms sys = Some sys'" and "I sys"
    and "\<And>m a b. I a \<Longrightarrow> step cfg m a = Some b \<Longrightarrow> I b"
  shows "I sys'"
  using assms(1,2)
proof (induction ms arbitrary: sys)
  case Nil
  then show ?case by simp
next
  case (Cons m ms)
  then show ?case
    by (auto split: option.splits intro: assms(3))
qed

lemma exec_replicate_add:
  "exec cfg (replicate (n + k) m) sys =
     (case exec cfg (replicate n m) sys of None \<Rightarrow> None
      | Some sys' \<Rightarrow> exec cfg (replicate k m) sys')"
  by (simp add: replicate_add exec_append)

lemma exec_replicate_then:
  "exec cfg (replicate n m) a = Some b \<Longrightarrow> exec cfg (replicate k m) b = Some c \<Longrightarrow>
   exec cfg (replicate (n + k) m) a = Some c"
  by (simp add: exec_replicate_add)


subsection \<open>Case analysis of a step\<close>

text \<open>
  Every step of the system is one of the statements below; \<open>step_cases\<close> lists them with
  the state each leaves behind.
\<close>

lemma CompileNext_step_cases [consumes 1, case_names Dequeue Decrement Optimize Enqueue Mark]:
  assumes "CompileNext_step cfg t pc s = Inr (pc', s')"
  obtains
    (Dequeue) job rest where "pc = C_Dequeue" "input_queue s = job # rest"
      "pc' = Some (C_Decrement job)"
      "s' = s\<lparr>input_queue := rest, trace := trace s @ [InputDequeue t job]\<rparr>"
  | (Decrement) job where "pc = C_Decrement job" "pc' = Some (C_OptimizeGraph job)"
      "s' = s\<lparr>queue_length := queue_length s - 1\<rparr>"
  | (Optimize) job where "pc = C_OptimizeGraph job" "pc' = Some (C_Enqueue job)"
      "s' = s\<lparr>trace := trace s @ [Optimize t job]\<rparr>"
      "DEBUG cfg \<longrightarrow> heap s (closure job) = InRecompileQueue \<and> OptimizeGraph job \<noteq> FAILED"
  | (Enqueue) job where "pc = C_Enqueue job" "pc' = Some (C_Mark job)"
      "s' = s\<lparr>output_queue := output_queue s @ [job],
               trace := trace s @ [OutputEnqueue t job]\<rparr>"
  | (Mark) job where "pc = C_Mark job" "pc' = None"
      "s' = s\<lparr>heap := (heap s)(closure job := MarkedForInstalling),
               trace := trace s @ [Mark t (closure job)]\<rparr>"
      "DEBUG cfg \<longrightarrow> heap s (closure job) = InRecompileQueue"
  using assms
  by (cases pc)
     (auto simp: CompileNext_step_def Barrier_AtomicIncrement_def IsInRecompileQueue_def
        MarkForInstallingRecompiledCode_def split: list.splits if_splits)

lemma CompileNext_step_Inl:
  assumes "CompileNext_step cfg t pc s = Inl e"
  shows "(pc = C_Dequeue \<and> input_queue s = [] \<and> e = NullDereference) \<or>
         (DEBUG cfg \<and> e = AssertionFailed \<and>
          ((\<exists>job. pc = C_OptimizeGraph job \<and>
                  (heap s (closure job) \<noteq> InRecompileQueue \<or> OptimizeGraph job = FAILED)) \<or>
           (\<exists>job. pc = C_Mark job \<and> heap s (closure job) \<noteq> InRecompileQueue)))"
  using assms
  by (cases pc)
     (auto simp: CompileNext_step_def IsInRecompileQueue_def split: list.splits if_splits)

lemma worker_step_cases
  [consumes 1, case_names Wait Load_stop Load_go Signal CompileNext Failure]:
  assumes "worker_step cfg a = Some b"
  obtains
    (Wait) "worker a = W_Wait" "0 < input_queue_semaphore (shared a)"
      "b = a\<lparr>shared := (shared a)\<lparr>input_queue_semaphore :=
                 input_queue_semaphore (shared a) - 1\<rparr>, worker := W_Load\<rparr>"
  | (Load_stop) "worker a = W_Load" "stop_thread (shared a)" "b = a\<lparr>worker := W_Signal\<rparr>"
  | (Load_go) "worker a = W_Load" "\<not> stop_thread (shared a)"
      "b = a\<lparr>worker := W_CompileNext C_Dequeue\<rparr>"
  | (Signal) "worker a = W_Signal"
      "b = a\<lparr>shared := (shared a)\<lparr>stop_semaphore := stop_semaphore (shared a) + 1\<rparr>,
             worker := W_Return\<rparr>"
  | (CompileNext) pc pc' s' where "worker a = W_CompileNext pc"
      "CompileNext_step cfg OptimizerThread pc (shared a) = Inr (pc', s')"
      "b = a\<lparr>shared := s',
             worker := (case pc' of None \<Rightarrow> W_Wait | Some p \<Rightarrow> W_CompileNext p)\<rparr>"
  | (Failure) pc e where "worker a = W_CompileNext pc"
      "CompileNext_step cfg OptimizerThread pc (shared a) = Inl e"
      "b = a\<lparr>failure := Some e\<rparr>"
proof (cases "worker a")
  case W_Wait
  then show ?thesis using assms
    by (intro Wait) (auto simp: worker_step_def Let_def split: if_splits)
next
  case W_Load
  show ?thesis
  proof (cases "stop_thread (shared a)")
    case True
    then show ?thesis using assms W_Load
      by (intro Load_stop) (auto simp: worker_step_def Let_def)
  next
    case False
    then show ?thesis using assms W_Load
      by (intro Load_go) (auto simp: worker_step_def Let_def)
  qed
next
  case W_Signal
  then show ?thesis using assms
    by (intro Signal) (auto simp: worker_step_def Let_def)
next
  case (W_CompileNext pc)
  show ?thesis
  proof (cases "CompileNext_step cfg OptimizerThread pc (shared a)")
    case (Inl e)
    then show ?thesis using assms W_CompileNext
      by (intro Failure [of pc e]) (auto simp: worker_step_def Let_def)
  next
    case (Inr r)
    obtain pc' s' where r: "r = (pc', s')" by (cases r)
    show ?thesis using assms W_CompileNext Inr r
      by (intro CompileNext [of pc pc' s'])
         (auto simp: worker_step_def Let_def split: option.splits)
  qed
next
  case W_Return
  then show ?thesis using assms by (simp add: worker_step_def Let_def)
qed

lemma call_step_cases [consumes 1, case_names Queue Install Stop Failure]:
  assumes "call_step cfg c a = Some b"
  obtains
    (Queue) job where "main a = M_Idle" "c = Call_QueueForOptimization job"
      "b = a\<lparr>main := M_Queue_Increment job\<rparr>"
  | (Install) "main a = M_Idle" "c = Call_InstallOptimizedFunctions"
      "b = a\<lparr>main := M_Install_Loop To_Idle\<rparr>"
  | (Stop) "main a = M_Idle" "c = Call_Stop" "b = a\<lparr>main := M_Stop_Store\<rparr>"
  | (Failure) e where "main a = M_Idle" "DEBUG cfg" "b = a\<lparr>failure := Some e\<rparr>"
  using assms
  by (cases c) (auto simp: call_step_def split: if_splits)

lemma main_step_cases
  [consumes 1, case_names Queue_Increment Queue_Enqueue Queue_Signal Install_Return Install_Go
     Install_Dequeue Stop_Store Stop_Signal Stop_Wait Stop_Flag_drain Stop_Flag_skip
     Stop_Loop_go Stop_Loop_exit CompileNext Stop_Trace Install_Failure CompileNext_Failure]:
  assumes "main_step cfg a = Some b"
  obtains
    (Queue_Increment) job where "main a = M_Queue_Increment job"
      "b = a\<lparr>shared := (shared a)\<lparr>queue_length := queue_length (shared a) + 1\<rparr>,
             main := M_Queue_Enqueue job\<rparr>"
  | (Queue_Enqueue) job where "main a = M_Queue_Enqueue job"
      "b = a\<lparr>shared := (shared a)\<lparr>input_queue := input_queue (shared a) @ [job],
                 trace := trace (shared a) @ [InputEnqueue ExecutionThread job]\<rparr>,
             main := M_Queue_Signal\<rparr>"
  | (Queue_Signal) "main a = M_Queue_Signal"
      "b = a\<lparr>shared := (shared a)\<lparr>input_queue_semaphore :=
                 input_queue_semaphore (shared a) + 1\<rparr>, main := M_Idle\<rparr>"
  | (Install_Return) r where "main a = M_Install_Loop r"
      "output_queue (shared a) = [] \<or>
       IsInRecompileQueue (heap (shared a) (closure (hd (output_queue (shared a)))))"
      "b = a\<lparr>main := return_pc r\<rparr>"
  | (Install_Go) r where "main a = M_Install_Loop r" "output_queue (shared a) \<noteq> []"
      "\<not> IsInRecompileQueue (heap (shared a) (closure (hd (output_queue (shared a)))))"
      "b = a\<lparr>main := M_Install_Dequeue r\<rparr>"
  | (Install_Dequeue) r compiler rest where "main a = M_Install_Dequeue r"
      "output_queue (shared a) = compiler # rest"
      "b = a\<lparr>shared := (shared a)\<lparr>output_queue := rest,
                 heap := (heap (shared a))(closure compiler := ActualCode),
                 trace := trace (shared a) @ [Install ExecutionThread compiler]\<rparr>,
             main := M_Install_Loop r\<rparr>"
  | (Stop_Store) "main a = M_Stop_Store"
      "b = a\<lparr>shared := (shared a)\<lparr>stop_thread := True\<rparr>, main := M_Stop_Signal\<rparr>"
  | (Stop_Signal) "main a = M_Stop_Signal"
      "b = a\<lparr>shared := (shared a)\<lparr>input_queue_semaphore :=
                 input_queue_semaphore (shared a) + 1\<rparr>, main := M_Stop_Wait\<rparr>"
  | (Stop_Wait) "main a = M_Stop_Wait" "0 < stop_semaphore (shared a)"
      "b = a\<lparr>shared := (shared a)\<lparr>stop_semaphore := stop_semaphore (shared a) - 1\<rparr>,
             main := M_Stop_Flag\<rparr>"
  | (Stop_Flag_drain) "main a = M_Stop_Flag" "FLAG_parallel_recompilation_delay cfg \<noteq> 0"
      "b = a\<lparr>main := M_Install_Loop To_Stop_Loop\<rparr>"
  | (Stop_Flag_skip) "main a = M_Stop_Flag" "FLAG_parallel_recompilation_delay cfg = 0"
      "b = a\<lparr>main := M_Stop_Trace\<rparr>"
  | (Stop_Loop_go) "main a = M_Stop_Loop" "0 <s queue_length (shared a)"
      "b = a\<lparr>main := M_Stop_CompileNext C_Dequeue\<rparr>"
  | (Stop_Loop_exit) "main a = M_Stop_Loop" "\<not> 0 <s queue_length (shared a)"
      "b = a\<lparr>main := M_Stop_Trace\<rparr>"
  | (CompileNext) pc pc' s' where "main a = M_Stop_CompileNext pc"
      "CompileNext_step cfg ExecutionThread pc (shared a) = Inr (pc', s')"
      "b = a\<lparr>shared := s',
             main := (case pc' of None \<Rightarrow> M_Install_Loop To_Stop_Loop
                      | Some p \<Rightarrow> M_Stop_CompileNext p)\<rparr>"
  | (Stop_Trace) "main a = M_Stop_Trace" "b = a\<lparr>main := M_Idle\<rparr>"
  | (Install_Failure) r where "main a = M_Install_Dequeue r" "output_queue (shared a) = []"
      "b = a\<lparr>failure := Some NullDereference\<rparr>"
  | (CompileNext_Failure) pc e where "main a = M_Stop_CompileNext pc"
      "CompileNext_step cfg ExecutionThread pc (shared a) = Inl e"
      "b = a\<lparr>failure := Some e\<rparr>"
proof (cases "main a")
  case M_Idle
  then show ?thesis using assms by (simp add: main_step_def Let_def)
next
  case (M_Queue_Increment job)
  then show ?thesis using assms
    by (intro Queue_Increment [of job])
       (auto simp: main_step_def Let_def Barrier_AtomicIncrement_def)
next
  case (M_Queue_Enqueue job)
  then show ?thesis using assms
    by (intro Queue_Enqueue [of job]) (auto simp: main_step_def Let_def)
next
  case M_Queue_Signal
  then show ?thesis using assms
    by (intro Queue_Signal) (auto simp: main_step_def Let_def)
next
  case (M_Install_Loop r)
  show ?thesis
  proof (cases "output_queue (shared a) = [] \<or>
       IsInRecompileQueue (heap (shared a) (closure (hd (output_queue (shared a)))))")
    case True
    then show ?thesis using assms M_Install_Loop
      by (intro Install_Return [of r]) (auto simp: main_step_def Let_def split: if_splits)
  next
    case False
    then show ?thesis using assms M_Install_Loop
      by (intro Install_Go [of r]) (auto simp: main_step_def Let_def split: if_splits)
  qed
next
  case (M_Install_Dequeue r)
  show ?thesis
  proof (cases "output_queue (shared a)")
    case Nil
    then show ?thesis using assms M_Install_Dequeue
      by (intro Install_Failure [of r]) (auto simp: main_step_def Let_def)
  next
    case (Cons compiler rest)
    then show ?thesis using assms M_Install_Dequeue
      by (intro Install_Dequeue [of r compiler rest])
         (auto simp: main_step_def Let_def InstallOptimizedCode_def IsInRecompileQueue_def)
  qed
next
  case M_Stop_Store
  then show ?thesis using assms
    by (intro Stop_Store) (auto simp: main_step_def Let_def)
next
  case M_Stop_Signal
  then show ?thesis using assms
    by (intro Stop_Signal) (auto simp: main_step_def Let_def)
next
  case M_Stop_Wait
  then show ?thesis using assms
    by (intro Stop_Wait) (auto simp: main_step_def Let_def split: if_splits)
next
  case M_Stop_Flag
  show ?thesis
  proof (cases "FLAG_parallel_recompilation_delay cfg = 0")
    case True
    then show ?thesis using assms M_Stop_Flag
      by (intro Stop_Flag_skip) (auto simp: main_step_def Let_def)
  next
    case False
    then show ?thesis using assms M_Stop_Flag
      by (intro Stop_Flag_drain) (auto simp: main_step_def Let_def)
  qed
next
  case M_Stop_Loop
  show ?thesis
  proof (cases "0 <s queue_length (shared a)")
    case True
    then show ?thesis using assms M_Stop_Loop
      by (intro Stop_Loop_go) (auto simp: main_step_def Let_def)
  next
    case False
    then show ?thesis using assms M_Stop_Loop
      by (intro Stop_Loop_exit) (auto simp: main_step_def Let_def)
  qed
next
  case (M_Stop_CompileNext pc)
  show ?thesis
  proof (cases "CompileNext_step cfg ExecutionThread pc (shared a)")
    case (Inl e)
    then show ?thesis using assms M_Stop_CompileNext
      by (intro CompileNext_Failure [of pc e]) (auto simp: main_step_def Let_def)
  next
    case (Inr r)
    obtain pc' s' where r: "r = (pc', s')" by (cases r)
    show ?thesis using assms M_Stop_CompileNext Inr r
      by (intro CompileNext [of pc pc' s'])
         (auto simp: main_step_def Let_def split: option.splits)
  qed
next
  case M_Stop_Trace
  then show ?thesis using assms
    by (intro Stop_Trace) (auto simp: main_step_def Let_def)
qed

lemma step_cases
  [consumes 1, case_names W_wait W_load_stop W_load_go W_signal W_dequeue W_decrement W_optimize W_enqueue W_mark Call_queue Call_install Call_stop Queue_increment Queue_enqueue Queue_signal Install_return Install_go Install_dequeue Stop_store Stop_signal Stop_wait Stop_flag_drain Stop_flag_skip Stop_loop_go Stop_loop_exit M_dequeue M_decrement M_optimize M_enqueue M_mark Stop_trace W_failed M_failed Install_failed Call_failed]:
  assumes "step cfg m a = Some b"
  obtains
    (W_wait) "m = WorkerStep" "worker a = W_Wait" "0 < input_queue_semaphore (shared a)"
      "b = a\<lparr>shared := (shared a)\<lparr>input_queue_semaphore :=
                 input_queue_semaphore (shared a) - 1\<rparr>, worker := W_Load\<rparr>"
  | (W_load_stop) "m = WorkerStep" "worker a = W_Load" "stop_thread (shared a)" "b = a\<lparr>worker := W_Signal\<rparr>"
  | (W_load_go) "m = WorkerStep" "worker a = W_Load" "\<not> stop_thread (shared a)"
      "b = a\<lparr>worker := W_CompileNext C_Dequeue\<rparr>"
  | (W_signal) "m = WorkerStep" "worker a = W_Signal"
      "b = a\<lparr>shared := (shared a)\<lparr>stop_semaphore := stop_semaphore (shared a) + 1\<rparr>,
             worker := W_Return\<rparr>"
  | (W_dequeue) job rest where "m = WorkerStep" "worker a = W_CompileNext C_Dequeue"
      "input_queue (shared a) = job # rest"
      "b = a\<lparr>shared := (shared a)\<lparr>input_queue := rest,
                 trace := trace (shared a) @ [InputDequeue OptimizerThread job]\<rparr>,
             worker := W_CompileNext (C_Decrement job)\<rparr>"
  | (W_decrement) job where "m = WorkerStep" "worker a = W_CompileNext (C_Decrement job)"
      "b = a\<lparr>shared := (shared a)\<lparr>queue_length := queue_length (shared a) - 1\<rparr>,
             worker := W_CompileNext (C_OptimizeGraph job)\<rparr>"
  | (W_optimize) job where "m = WorkerStep" "worker a = W_CompileNext (C_OptimizeGraph job)"
      "DEBUG cfg \<longrightarrow>
         heap (shared a) (closure job) = InRecompileQueue \<and> OptimizeGraph job \<noteq> FAILED"
      "b = a\<lparr>shared := (shared a)\<lparr>trace := trace (shared a) @ [Optimize OptimizerThread job]\<rparr>,
             worker := W_CompileNext (C_Enqueue job)\<rparr>"
  | (W_enqueue) job where "m = WorkerStep" "worker a = W_CompileNext (C_Enqueue job)"
      "b = a\<lparr>shared := (shared a)\<lparr>output_queue := output_queue (shared a) @ [job],
                 trace := trace (shared a) @ [OutputEnqueue OptimizerThread job]\<rparr>,
             worker := W_CompileNext (C_Mark job)\<rparr>"
  | (W_mark) job where "m = WorkerStep" "worker a = W_CompileNext (C_Mark job)"
      "DEBUG cfg \<longrightarrow> heap (shared a) (closure job) = InRecompileQueue"
      "b = a\<lparr>shared := (shared a)\<lparr>heap := (heap (shared a))(closure job := MarkedForInstalling),
                 trace := trace (shared a) @ [Mark OptimizerThread (closure job)]\<rparr>,
             worker := W_Wait\<rparr>"
  | (Call_queue) job where "m = MainCall (Call_QueueForOptimization job)" "main a = M_Idle"
      "b = a\<lparr>main := M_Queue_Increment job\<rparr>"
  | (Call_install) "m = MainCall Call_InstallOptimizedFunctions" "main a = M_Idle"
      "b = a\<lparr>main := M_Install_Loop To_Idle\<rparr>"
  | (Call_stop) "m = MainCall Call_Stop" "main a = M_Idle" "b = a\<lparr>main := M_Stop_Store\<rparr>"
  | (Queue_increment) job where "m = MainStep" "main a = M_Queue_Increment job"
      "b = a\<lparr>shared := (shared a)\<lparr>queue_length := queue_length (shared a) + 1\<rparr>,
             main := M_Queue_Enqueue job\<rparr>"
  | (Queue_enqueue) job where "m = MainStep" "main a = M_Queue_Enqueue job"
      "b = a\<lparr>shared := (shared a)\<lparr>input_queue := input_queue (shared a) @ [job],
                 trace := trace (shared a) @ [InputEnqueue ExecutionThread job]\<rparr>,
             main := M_Queue_Signal\<rparr>"
  | (Queue_signal) "m = MainStep" "main a = M_Queue_Signal"
      "b = a\<lparr>shared := (shared a)\<lparr>input_queue_semaphore :=
                 input_queue_semaphore (shared a) + 1\<rparr>, main := M_Idle\<rparr>"
  | (Install_return) r where "m = MainStep" "main a = M_Install_Loop r"
      "output_queue (shared a) = [] \<or>
       IsInRecompileQueue (heap (shared a) (closure (hd (output_queue (shared a)))))"
      "b = a\<lparr>main := return_pc r\<rparr>"
  | (Install_go) r where "m = MainStep" "main a = M_Install_Loop r" "output_queue (shared a) \<noteq> []"
      "\<not> IsInRecompileQueue (heap (shared a) (closure (hd (output_queue (shared a)))))"
      "b = a\<lparr>main := M_Install_Dequeue r\<rparr>"
  | (Install_dequeue) r compiler rest where "m = MainStep" "main a = M_Install_Dequeue r"
      "output_queue (shared a) = compiler # rest"
      "b = a\<lparr>shared := (shared a)\<lparr>output_queue := rest,
                 heap := (heap (shared a))(closure compiler := ActualCode),
                 trace := trace (shared a) @ [Install ExecutionThread compiler]\<rparr>,
             main := M_Install_Loop r\<rparr>"
  | (Stop_store) "m = MainStep" "main a = M_Stop_Store"
      "b = a\<lparr>shared := (shared a)\<lparr>stop_thread := True\<rparr>, main := M_Stop_Signal\<rparr>"
  | (Stop_signal) "m = MainStep" "main a = M_Stop_Signal"
      "b = a\<lparr>shared := (shared a)\<lparr>input_queue_semaphore :=
                 input_queue_semaphore (shared a) + 1\<rparr>, main := M_Stop_Wait\<rparr>"
  | (Stop_wait) "m = MainStep" "main a = M_Stop_Wait" "0 < stop_semaphore (shared a)"
      "b = a\<lparr>shared := (shared a)\<lparr>stop_semaphore := stop_semaphore (shared a) - 1\<rparr>,
             main := M_Stop_Flag\<rparr>"
  | (Stop_flag_drain) "m = MainStep" "main a = M_Stop_Flag" "FLAG_parallel_recompilation_delay cfg \<noteq> 0"
      "b = a\<lparr>main := M_Install_Loop To_Stop_Loop\<rparr>"
  | (Stop_flag_skip) "m = MainStep" "main a = M_Stop_Flag" "FLAG_parallel_recompilation_delay cfg = 0"
      "b = a\<lparr>main := M_Stop_Trace\<rparr>"
  | (Stop_loop_go) "m = MainStep" "main a = M_Stop_Loop" "0 <s queue_length (shared a)"
      "b = a\<lparr>main := M_Stop_CompileNext C_Dequeue\<rparr>"
  | (Stop_loop_exit) "m = MainStep" "main a = M_Stop_Loop" "\<not> 0 <s queue_length (shared a)"
      "b = a\<lparr>main := M_Stop_Trace\<rparr>"
  | (M_dequeue) job rest where "m = MainStep" "main a = M_Stop_CompileNext C_Dequeue"
      "input_queue (shared a) = job # rest"
      "b = a\<lparr>shared := (shared a)\<lparr>input_queue := rest,
                 trace := trace (shared a) @ [InputDequeue ExecutionThread job]\<rparr>,
             main := M_Stop_CompileNext (C_Decrement job)\<rparr>"
  | (M_decrement) job where "m = MainStep" "main a = M_Stop_CompileNext (C_Decrement job)"
      "b = a\<lparr>shared := (shared a)\<lparr>queue_length := queue_length (shared a) - 1\<rparr>,
             main := M_Stop_CompileNext (C_OptimizeGraph job)\<rparr>"
  | (M_optimize) job where "m = MainStep" "main a = M_Stop_CompileNext (C_OptimizeGraph job)"
      "DEBUG cfg \<longrightarrow>
         heap (shared a) (closure job) = InRecompileQueue \<and> OptimizeGraph job \<noteq> FAILED"
      "b = a\<lparr>shared := (shared a)\<lparr>trace := trace (shared a) @ [Optimize ExecutionThread job]\<rparr>,
             main := M_Stop_CompileNext (C_Enqueue job)\<rparr>"
  | (M_enqueue) job where "m = MainStep" "main a = M_Stop_CompileNext (C_Enqueue job)"
      "b = a\<lparr>shared := (shared a)\<lparr>output_queue := output_queue (shared a) @ [job],
                 trace := trace (shared a) @ [OutputEnqueue ExecutionThread job]\<rparr>,
             main := M_Stop_CompileNext (C_Mark job)\<rparr>"
  | (M_mark) job where "m = MainStep" "main a = M_Stop_CompileNext (C_Mark job)"
      "DEBUG cfg \<longrightarrow> heap (shared a) (closure job) = InRecompileQueue"
      "b = a\<lparr>shared := (shared a)\<lparr>heap := (heap (shared a))(closure job := MarkedForInstalling),
                 trace := trace (shared a) @ [Mark ExecutionThread (closure job)]\<rparr>,
             main := M_Install_Loop To_Stop_Loop\<rparr>"
  | (Stop_trace) "m = MainStep" "main a = M_Stop_Trace" "b = a\<lparr>main := M_Idle\<rparr>"
  | (W_failed) pc e where "m = WorkerStep" "worker a = W_CompileNext pc"
      "CompileNext_step cfg OptimizerThread pc (shared a) = Inl e"
      "b = a\<lparr>failure := Some e\<rparr>"
  | (M_failed) pc e where "m = MainStep" "main a = M_Stop_CompileNext pc"
      "CompileNext_step cfg ExecutionThread pc (shared a) = Inl e"
      "b = a\<lparr>failure := Some e\<rparr>"
  | (Install_failed) r where "m = MainStep" "main a = M_Install_Dequeue r"
      "output_queue (shared a) = []" "b = a\<lparr>failure := Some NullDereference\<rparr>"
  | (Call_failed) c e where "m = MainCall c" "main a = M_Idle" "DEBUG cfg"
      "b = a\<lparr>failure := Some e\<rparr>"
proof (cases m)
  case WorkerStep
  then have "worker_step cfg a = Some b"
    using assms by (simp add: step_def split: if_splits)
  then show ?thesis
  proof (cases rule: worker_step_cases)
    case Wait
    then show ?thesis using WorkerStep by (intro W_wait) simp_all
  next
    case Load_stop
    then show ?thesis using WorkerStep by (intro W_load_stop) simp_all
  next
    case Load_go
    then show ?thesis using WorkerStep by (intro W_load_go) simp_all
  next
    case Signal
    then show ?thesis using WorkerStep by (intro W_signal) simp_all
  next
    case (CompileNext pc pc' s')
    from CompileNext(2) show ?thesis
    proof (cases rule: CompileNext_step_cases)
      case (Dequeue job rest)
      then show ?thesis using CompileNext WorkerStep by (intro W_dequeue [of job rest]) simp_all
    next
      case (Decrement job)
      then show ?thesis using CompileNext WorkerStep by (intro W_decrement [of job]) simp_all
    next
      case (Optimize job)
      then show ?thesis using CompileNext WorkerStep by (intro W_optimize [of job]) simp_all
    next
      case (Enqueue job)
      then show ?thesis using CompileNext WorkerStep by (intro W_enqueue [of job]) simp_all
    next
      case (Mark job)
      then show ?thesis using CompileNext WorkerStep by (intro W_mark [of job]) simp_all
    qed
  next
    case (Failure pc e)
    then show ?thesis using WorkerStep by (intro W_failed [of pc e]) simp_all
  qed
next
  case MainStep
  then have "main_step cfg a = Some b"
    using assms by (simp add: step_def split: if_splits)
  then show ?thesis
  proof (cases rule: main_step_cases)
    case (Queue_Increment job)
    then show ?thesis using MainStep by (intro Queue_increment [of job]) simp_all
  next
    case (Queue_Enqueue job)
    then show ?thesis using MainStep by (intro Queue_enqueue [of job]) simp_all
  next
    case Queue_Signal
    then show ?thesis using MainStep by (intro Queue_signal) simp_all
  next
    case (Install_Return r)
    then show ?thesis using MainStep by (intro Install_return [of r]) simp_all
  next
    case (Install_Go r)
    then show ?thesis using MainStep by (intro Install_go [of r]) simp_all
  next
    case (Install_Dequeue r compiler rest)
    then show ?thesis using MainStep by (intro Install_dequeue [of r compiler rest]) simp_all
  next
    case Stop_Store
    then show ?thesis using MainStep by (intro Stop_store) simp_all
  next
    case Stop_Signal
    then show ?thesis using MainStep by (intro Stop_signal) simp_all
  next
    case Stop_Wait
    then show ?thesis using MainStep by (intro Stop_wait) simp_all
  next
    case Stop_Flag_drain
    then show ?thesis using MainStep by (intro Stop_flag_drain) simp_all
  next
    case Stop_Flag_skip
    then show ?thesis using MainStep by (intro Stop_flag_skip) simp_all
  next
    case Stop_Loop_go
    then show ?thesis using MainStep by (intro Stop_loop_go) simp_all
  next
    case Stop_Loop_exit
    then show ?thesis using MainStep by (intro Stop_loop_exit) simp_all
  next
    case (CompileNext pc pc' s')
    from CompileNext(2) show ?thesis
    proof (cases rule: CompileNext_step_cases)
      case (Dequeue job rest)
      then show ?thesis using CompileNext MainStep by (intro M_dequeue [of job rest]) simp_all
    next
      case (Decrement job)
      then show ?thesis using CompileNext MainStep by (intro M_decrement [of job]) simp_all
    next
      case (Optimize job)
      then show ?thesis using CompileNext MainStep by (intro M_optimize [of job]) simp_all
    next
      case (Enqueue job)
      then show ?thesis using CompileNext MainStep by (intro M_enqueue [of job]) simp_all
    next
      case (Mark job)
      then show ?thesis using CompileNext MainStep by (intro M_mark [of job]) simp_all
    qed
  next
    case Stop_Trace
    then show ?thesis using MainStep by (intro Stop_trace) simp_all
  next
    case (Install_Failure r)
    then show ?thesis using MainStep by (intro Install_failed [of r]) simp_all
  next
    case (CompileNext_Failure pc e)
    then show ?thesis using MainStep by (intro M_failed [of pc e]) simp_all
  qed
next
  case (MainCall c)
  then have "call_step cfg c a = Some b"
    using assms by (simp add: step_def split: if_splits)
  then show ?thesis
  proof (cases rule: call_step_cases)
    case (Queue job)
    then show ?thesis using MainCall by (intro Call_queue [of job]) simp_all
  next
    case Install
    then show ?thesis using MainCall by (intro Call_install) simp_all
  next
    case Stop
    then show ?thesis using MainCall by (intro Call_stop) simp_all
  next
    case (Failure e)
    then show ?thesis using MainCall by (intro Call_failed [of c e]) simp_all
  qed
qed

subsection \<open>The invariants\<close>

lemma handshake_step:
  assumes "step cfg m a = Some b" and "handshake a"
  shows "handshake b"
  using assms
  by (cases rule: step_cases) (auto simp: handshake_def return_pc_def split: return_to.splits)

lemma handshake_initial: "handshake (initial h)"
  by (simp add: handshake_def initial_def)

lemma handshake_exclusive:
  "handshake sys \<Longrightarrow> worker sys = W_Return \<or> \<not> after_Wait (main sys)"
  by (auto simp: handshake_def)

lemma handshake_Stop_Wait:
  "handshake sys \<Longrightarrow> main sys = M_Stop_Wait \<Longrightarrow> stop_thread (shared sys)"
  by (auto simp: handshake_def)

lemma handshake_semaphore:
  "handshake sys \<Longrightarrow> 0 < stop_semaphore (shared sys) \<Longrightarrow> worker sys = W_Return"
  by (auto simp: handshake_def)

lemma handshake_returned:
  "handshake sys \<Longrightarrow> after_Wait (main sys) \<Longrightarrow> worker sys = W_Return"
  by (auto simp: handshake_def)

lemma main_holding_before_Wait [simp]: "\<not> after_Wait pc \<Longrightarrow> main_holding pc = []"
  by (cases pc) simp_all

lemma main_compiled_before_Wait [simp]: "\<not> after_Wait pc \<Longrightarrow> main_compiled pc = []"
  by (cases pc) simp_all

lemma conservation_step:
  assumes "step cfg m a = Some b" and "handshake a" and "conservation a"
  shows "conservation b"
  using assms(1,3) handshake_exclusive [OF assms(2)]
  by (cases rule: step_cases)
     (auto simp: conservation_def pipeline_def enqueued_def installed_def compiled_def
        published_def return_pc_def split: return_to.splits)

lemma counter_step:
  assumes "step cfg m a = Some b" and "counter a"
  shows "counter b"
  using assms
  by (cases rule: step_cases)
     (auto simp: counter_def return_pc_def split: return_to.splits)

lemma stop_token_eq: "stop_token pc = (if pc = M_Stop_Wait then 1 else 0)"
  by (cases pc) simp_all

lemma tokens_step:
  assumes "step cfg m a = Some b" and "handshake a" and "tokens a"
  shows "tokens b"
  using assms(1,3) handshake_exclusive [OF assms(2)] handshake_Stop_Wait [OF assms(2)]
    handshake_semaphore [OF assms(2)]
  by (cases rule: step_cases)
     (auto simp: tokens_def return_pc_def stop_token_eq split: return_to.splits)

lemma published_marked_step:
  assumes "step cfg m a = Some b" and "published_marked a"
  shows "published_marked b"
  using assms
  by (cases rule: step_cases)
     (auto simp: published_marked_def return_pc_def split: return_to.splits)

lemma front_eligible_step:
  assumes "step cfg m a = Some b" and "front_eligible a"
  shows "front_eligible b"
  using assms
  by (cases rule: step_cases)
     (auto simp: front_eligible_def return_pc_def IsInRecompileQueue_def
        split: return_to.splits)

lemma sless_zero_of_nat: "0 <s (of_nat n :: 32 word) \<Longrightarrow> n \<noteq> 0"
  by (cases n) simp_all

lemma drain_guard_step:
  assumes "step cfg m a = Some b" and "handshake a" and "counter a" and "drain_guard cfg a"
  shows "drain_guard cfg b"
  using assms(1,4)
proof (cases rule: step_cases)
  case Stop_loop_go
  have "worker a = W_Return"
    using handshake_returned [OF assms(2)] Stop_loop_go by simp
  then have "queue_length (shared a) = of_nat (length (input_queue (shared a)))"
    using assms(3) Stop_loop_go by (simp add: counter_def)
  then have "input_queue (shared a) \<noteq> []"
    using Stop_loop_go sless_zero_of_nat [of "length (input_queue (shared a))"] by auto
  then show ?thesis using Stop_loop_go assms(4) by (simp add: drain_guard_def)
next
  case (W_dequeue job rest)
  then have "\<not> after_Wait (main a)"
    using handshake_exclusive [OF assms(2)] by auto
  then show ?thesis using W_dequeue assms(4) by (auto simp: drain_guard_def)
qed (auto simp: drain_guard_def return_pc_def split: return_to.splits)

lemma invariant_initial: "invariant cfg (initial h)"
  by (simp add: invariant_def initial_def handshake_def conservation_def pipeline_def
      enqueued_def installed_def compiled_def published_def counter_def tokens_def published_marked_def
      front_eligible_def drain_guard_def)

lemma invariant_step:
  assumes "step cfg m a = Some b" and "invariant cfg a"
  shows "invariant cfg b"
proof -
  note s = assms(1)
  have i: "handshake a" "conservation a" "counter a" "tokens a" "published_marked a"
    "front_eligible a" "drain_guard cfg a"
    using assms(2) by (simp_all add: invariant_def)
  show ?thesis
    unfolding invariant_def
    using handshake_step [OF s i(1)] conservation_step [OF s i(1,2)] counter_step [OF s i(3)]
      tokens_step [OF s i(1,4)] published_marked_step [OF s i(5)]
      front_eligible_step [OF s i(6)] drain_guard_step [OF s i(1,3,7)]
    by simp
qed

lemma invariant_exec:
  assumes "exec cfg ms a = Some b" and "invariant cfg a"
  shows "invariant cfg b"
  using assms(1,2)
proof (induction ms arbitrary: a)
  case Nil
  then show ?case by simp
next
  case (Cons m ms)
  then show ?case
    by (auto split: option.splits dest: invariant_step)
qed

lemma invariant_reachable:
  "exec cfg ms (initial h) = Some sys \<Longrightarrow> invariant cfg sys"
  using invariant_exec invariant_initial by blast

subsection \<open>Arithmetic of the counter and lists\<close>

lemma sint_of_nat_small: "n < 2 ^ 31 \<Longrightarrow> sint (of_nat n :: 32 word) = int n"
  by (simp add: signed_of_nat signed_take_bit_int_eq_self)

lemma sless_of_nat_small:
  "n < 2 ^ 31 \<Longrightarrow> (0 <s (of_nat n :: 32 word)) = (0 < n)"
  by (simp add: word_sless_alt sint_of_nat_small)

lemma snoc_eq_split:
  "xs @ [e] = pre @ x # post \<longleftrightarrow>
     (post = [] \<and> xs = pre \<and> e = x) \<or> (\<exists>post'. post = post' @ [e] \<and> xs = pre @ x # post')"
  by (cases post rule: rev_cases) auto

lemma observed_append [simp]:
  "enqueued (tr @ tr') = enqueued tr @ enqueued tr'"
  "compiled (tr @ tr') = compiled tr @ compiled tr'"
  "installed (tr @ tr') = installed tr @ installed tr'"
  by (simp_all add: enqueued_def compiled_def installed_def)

lemma observed_installs [simp]:
  "enqueued (map (Install t) jobs) = []"
  "compiled (map (Install t) jobs) = []"
  "installed (map (Install t) jobs) = jobs"
  by (induction jobs) (simp_all add: enqueued_def compiled_def installed_def)

lemma observed_drain [simp]:
  "enqueued (concat (map (\<lambda>job. [InputDequeue t job, Optimize t job, OutputEnqueue t job,
                              Mark t (closure job), Install t job]) jobs)) = []"
  "compiled (concat (map (\<lambda>job. [InputDequeue t job, Optimize t job, OutputEnqueue t job,
                              Mark t (closure job), Install t job]) jobs)) = jobs"
  "installed (concat (map (\<lambda>job. [InputDequeue t job, Optimize t job, OutputEnqueue t job,
                              Mark t (closure job), Install t job]) jobs)) = jobs"
  by (induction jobs) (simp_all add: enqueued_def compiled_def installed_def)

lemma dequeued_other [simp]:
  "dequeued t (tr @ [InputDequeue t' job]) =
     dequeued t tr @ (if t' = t then [job] else [])"
  by (simp add: dequeued_def)

lemma fold_install_heap:
  "fold (\<lambda>job h. h(closure job := ActualCode)) jobs h c =
     (if c \<in> closure ` set jobs then ActualCode else h c)"
  by (induction jobs arbitrary: h) auto

subsection \<open>After the stop flag is set\<close>

lemma stopping_step:
  assumes "step cfg m a = Some b" and "stop_thread (shared a)"
  shows "stop_thread (shared b) \<and>
         length (dequeued OptimizerThread (trace (shared b))) + compiles_left (worker b) =
         length (dequeued OptimizerThread (trace (shared a))) + compiles_left (worker a)"
  using assms
  by (cases rule: step_cases) (auto simp: dequeued_def)

lemma stopping_exec:
  assumes "exec cfg ms a = Some b" and "stop_thread (shared a)"
  shows "stop_thread (shared b) \<and>
         length (dequeued OptimizerThread (trace (shared b))) + compiles_left (worker b) =
         length (dequeued OptimizerThread (trace (shared a))) + compiles_left (worker a)"
  using assms
proof (induction ms arbitrary: a)
  case Nil
  then show ?case by simp
next
  case (Cons m ms)
  then obtain c where c: "step cfg m a = Some c" "exec cfg ms c = Some b"
    by (auto split: option.splits)
  show ?case
    using stopping_step [OF c(1) Cons.prems(2)] Cons.IH [OF c(2)] by simp
qed

lemma woken_worker_returns:
  assumes "invariant cfg sys" and "main sys = M_Stop_Wait" and "failure sys = None"
    and "worker sys = W_Wait"
  shows "exec cfg [WorkerStep, WorkerStep, WorkerStep] sys =
           Some (sys\<lparr>shared := (shared sys)\<lparr>
                        input_queue_semaphore := input_queue_semaphore (shared sys) - 1,
                        stop_semaphore := stop_semaphore (shared sys) + 1\<rparr>,
                     worker := W_Return\<rparr>)"
proof -
  have "stop_thread (shared sys)" and "0 < input_queue_semaphore (shared sys)"
    using assms by (auto simp: invariant_def handshake_def tokens_def)
  then show ?thesis
    using assms(3,4) by (simp add: step_def worker_step_def Let_def)
qed

lemma no_drain_step:
  assumes "step cfg m a = Some b" and "FLAG_parallel_recompilation_delay cfg = 0"
    and "drain_guard cfg a"
  shows "dequeued ExecutionThread (trace (shared b)) = dequeued ExecutionThread (trace (shared a))"
  using assms
  by (cases rule: step_cases) (auto simp: drain_guard_def dequeued_def)

lemma no_drain_exec:
  assumes "exec cfg ms a = Some b" and "FLAG_parallel_recompilation_delay cfg = 0"
    and "invariant cfg a"
  shows "dequeued ExecutionThread (trace (shared b)) = dequeued ExecutionThread (trace (shared a))"
  using assms(1,3)
proof (induction ms arbitrary: a)
  case Nil
  then show ?case by simp
next
  case (Cons m ms)
  then obtain c where c: "step cfg m a = Some c" "exec cfg ms c = Some b"
    by (auto split: option.splits)
  have g: "drain_guard cfg a" using Cons.prems(2) by (simp add: invariant_def)
  show ?case
    using no_drain_step [OF c(1) assms(2) g]
      Cons.IH [OF c(2) invariant_step [OF c(1) Cons.prems(2)]] by simp
qed

lemma returned_step:
  assumes "step cfg m a = Some b" and "FLAG_parallel_recompilation_delay cfg = 0"
    and "drain_guard cfg a" and "worker a = W_Return"
  shows "worker b = W_Return \<and>
         (\<exists>more. input_queue (shared b) = input_queue (shared a) @ more) \<and>
         compiled (trace (shared b)) = compiled (trace (shared a))"
  using assms
  by (cases rule: step_cases) (auto simp: drain_guard_def compiled_def)

lemma returned_exec:
  assumes "exec cfg ms a = Some b" and "FLAG_parallel_recompilation_delay cfg = 0"
    and "invariant cfg a" and "worker a = W_Return"
  shows "worker b = W_Return \<and>
         (\<exists>more. input_queue (shared b) = input_queue (shared a) @ more) \<and>
         compiled (trace (shared b)) = compiled (trace (shared a))"
  using assms(1,3,4)
proof (induction ms arbitrary: a)
  case Nil
  then show ?case by simp
next
  case (Cons m ms)
  then obtain c where c: "step cfg m a = Some c" "exec cfg ms c = Some b"
    by (auto split: option.splits)
  have g: "drain_guard cfg a" using Cons.prems(2) by (simp add: invariant_def)
  note s = returned_step [OF c(1) assms(2) g Cons.prems(3)]
  note i = Cons.IH [OF c(2) invariant_step [OF c(1) Cons.prems(2)]]
  show ?case using s i by auto
qed

lemma Stop_after_Wait_no_delay:
  "FLAG_parallel_recompilation_delay cfg = 0 \<Longrightarrow> Stop_after_Wait cfg t s = Inr s"
  by (simp add: Stop_after_Wait_def)

subsection \<open>What changes the counter and the queues\<close>

lemma queue_length_changes:
  assumes "step cfg m a = Some b"
    and "queue_length (shared b) \<noteq> queue_length (shared a)"
  shows "(\<exists>job. main a = M_Queue_Increment job \<and>
                queue_length (shared b) = queue_length (shared a) + 1) \<or>
         (\<exists>job. (worker a = W_CompileNext (C_Decrement job) \<or>
                 main a = M_Stop_CompileNext (C_Decrement job)) \<and>
                queue_length (shared b) = queue_length (shared a) - 1)"
  using assms
  by (cases rule: step_cases) auto

lemma QueueForOptimization_Inr:
  assumes "QueueForOptimization cfg t job s = Inr s'"
  shows "queue_length s' = queue_length s + 1 \<and> input_queue s' = input_queue s @ [job] \<and>
         input_queue_semaphore s' = input_queue_semaphore s + 1"
  using assms
  by (auto simp: QueueForOptimization_def Let_def Barrier_AtomicIncrement_def split: if_splits)

lemma InstallOptimizedFunctions_Inr:
  assumes "InstallOptimizedFunctions cfg t s = Inr s'"
  shows "queue_length s' = queue_length s \<and> input_queue s' = input_queue s"
  using assms
  by (auto simp: InstallOptimizedFunctions_def InstallOptimizedFunctions_loop_eq
      install_all_def split: if_splits)

lemma Stop_before_Wait_Inr:
  assumes "Stop_before_Wait cfg t s = Inr s'"
  shows "queue_length s' = queue_length s \<and> input_queue s' = input_queue s"
  using assms by (auto simp: Stop_before_Wait_def Let_def split: if_splits)

lemma QueueForOptimization_returns:
  assumes "DEBUG cfg \<longrightarrow> IsQueueAvailable cfg s \<and> \<not> IsOptimizerThread cfg t"
  shows "QueueForOptimization cfg t job s =
           Inr (s\<lparr>queue_length := queue_length s + 1, input_queue := input_queue s @ [job],
                  trace := trace s @ [InputEnqueue t job],
                  input_queue_semaphore := input_queue_semaphore s + 1\<rparr>)"
  using assms
  by (auto simp: QueueForOptimization_def Let_def Barrier_AtomicIncrement_def)

lemma CompileNext_returns:
  assumes "input_queue s = job # rest"
    and "DEBUG cfg \<longrightarrow> IsInRecompileQueue (heap s (closure job)) \<and> OptimizeGraph job \<noteq> FAILED"
  shows "\<exists>s'. CompileNext cfg t s = Inr s' \<and> queue_length s' = queue_length s - 1 \<and>
              input_queue s' = rest"
  using assms
  by (auto simp: CompileNext_def Let_def Barrier_AtomicIncrement_def)

lemma counter_steps:
  assumes "failure a = None"
  shows "main a = M_Queue_Increment job \<longrightarrow>
           step cfg MainStep a =
             Some (a\<lparr>shared := (shared a)\<lparr>queue_length := queue_length (shared a) + 1\<rparr>,
                     main := M_Queue_Enqueue job\<rparr>)"
    and "worker a = W_CompileNext (C_Decrement job) \<longrightarrow>
           step cfg WorkerStep a =
             Some (a\<lparr>shared := (shared a)\<lparr>queue_length := queue_length (shared a) - 1\<rparr>,
                     worker := W_CompileNext (C_OptimizeGraph job)\<rparr>)"
    and "main a = M_Stop_CompileNext (C_Decrement job) \<longrightarrow>
           step cfg MainStep a =
             Some (a\<lparr>shared := (shared a)\<lparr>queue_length := queue_length (shared a) - 1\<rparr>,
                     main := M_Stop_CompileNext (C_OptimizeGraph job)\<rparr>)"
  using assms
  by (simp_all add: step_def main_step_def worker_step_def CompileNext_step_def Let_def
      Barrier_AtomicIncrement_def)

lemma output_dequeue_eligible:
  assumes "step cfg m a = Some b" and "front_eligible a"
    and "length (output_queue (shared b)) < length (output_queue (shared a))"
  shows "\<exists>job. m = MainStep \<and> output_queue (shared a) = job # output_queue (shared b) \<and>
           eligible (shared a) job \<and>
           trace (shared b) = trace (shared a) @ [Install ExecutionThread job]"
  using assms
  by (cases rule: step_cases)
     (auto simp: front_eligible_def eligible_def IsInRecompileQueue_def)

lemma output_balance:
  assumes "exec cfg ms (initial h) = Some sys"
  shows "length (installed (trace (shared sys))) + length (output_queue (shared sys)) =
         length (published (trace (shared sys)))"
  using invariant_reachable [OF assms]
  by (simp add: invariant_def conservation_def)

lemma exec_balance:
  assumes "exec cfg ms (initial h) = Some sys" and "exec cfg ms' sys = Some sys'"
  shows "length (installed (trace (shared sys'))) + length (output_queue (shared sys')) +
           length (published (trace (shared sys))) =
         length (installed (trace (shared sys))) + length (output_queue (shared sys)) +
           length (published (trace (shared sys')))"
proof -
  have "exec cfg (ms @ ms') (initial h) = Some sys'"
    using assms by (simp add: exec_append)
  then show ?thesis
    using output_balance [OF assms(1)] output_balance [of cfg "ms @ ms'" h sys'] by simp
qed

lemma install_budget_step:
  assumes "step cfg m a = Some b" and "\<not> is_call m" and "front_eligible a"
    and "main a = M_Idle \<or> main a = M_Install_Loop To_Idle \<or> main a = M_Install_Dequeue To_Idle"
  shows "(main b = M_Idle \<or> main b = M_Install_Loop To_Idle \<or> main b = M_Install_Dequeue To_Idle)
         \<and> install_budget b + (if m = MainStep then 1 else 0) \<le> install_budget a"
  using assms
  by (cases rule: step_cases) (auto simp: pipeline_def return_pc_def front_eligible_def)

lemma install_budget_exec:
  assumes "exec cfg ms a = Some b" and "\<forall>m \<in> set ms. \<not> is_call m" and "invariant cfg a"
    and "main a = M_Idle \<or> main a = M_Install_Loop To_Idle \<or> main a = M_Install_Dequeue To_Idle"
  shows "install_budget b + count_list ms MainStep \<le> install_budget a"
  using assms
proof (induction ms arbitrary: a)
  case Nil
  then show ?case by simp
next
  case (Cons m ms)
  then obtain c where c: "step cfg m a = Some c" "exec cfg ms c = Some b"
    by (auto split: option.splits)
  have n: "\<not> is_call m" "\<forall>m \<in> set ms. \<not> is_call m" using Cons.prems(2) by simp_all
  have f: "front_eligible a" using Cons.prems(3) by (simp add: invariant_def)
  note s = install_budget_step [OF c(1) n(1) f Cons.prems(4)]
  note i = Cons.IH [OF c(2) n(2) invariant_step [OF c(1) Cons.prems(3)] conjunct1 [OF s]]
  show ?case using s i by (auto split: if_splits)
qed

subsection \<open>The order of publishing and marking\<close>

lemma flips_follow_snoc:
  "flips_follow (tr @ [e]) \<longleftrightarrow>
     flips_follow tr \<and>
     (\<forall>t f. e = Mark t f \<longrightarrow>
        (\<exists>before job. own t tr = before @ [OutputEnqueue t job] \<and> closure job = f))"
  unfolding flips_follow_def snoc_eq_split
  by (intro iffI conjI allI impI; (elim conjE)?) (blast | force)+

lemma ordering_step:
  assumes "step cfg m a = Some b" and "ordering a"
  shows "ordering b"
  using assms
  by (cases rule: step_cases)
     (auto simp: ordering_def flips_follow_snoc last_published_def own_def return_pc_def
        split: return_to.splits option.splits)

lemma CompileNext_trace:
  assumes "CompileNext cfg t s = Inr s'"
  shows "\<exists>job. input_queue s = job # input_queue s' \<and>
           trace s' = trace s @ [InputDequeue t job, Optimize t job, OutputEnqueue t job,
                                 Mark t (closure job)]"
  using assms
  by (auto simp: CompileNext_def Let_def split: list.splits if_splits)

lemma ordering_reachable:
  assumes "exec cfg ms (initial h) = Some sys"
  shows "ordering sys"
proof -
  have "ordering (initial h)"
    by (simp add: ordering_def initial_def flips_follow_def last_published_def)
  with assms show ?thesis
  proof (rule exec_invariant [where I = ordering])
    show "ordering b" if "ordering a" and "step cfg m a = Some b" for m a b
      using ordering_step [OF that(2,1)] .
  qed
qed

subsection \<open>The count of markings\<close>

lemma main_to_mark_before_Wait [simp]: "\<not> after_Wait pc \<Longrightarrow> main_to_mark pc = []"
  by (cases pc) simp_all

lemma marked_append [simp]: "marked (tr @ tr') = marked tr @ marked tr'"
  by (simp add: marked_def)

lemma published_append [simp]: "published (tr @ tr') = published tr @ published tr'"
  by (simp add: published_def)








subsection \<open>The drain of Stop\<close>

lemma CompileNext_vetted:
  assumes "input_queue s = job # rest" and "vetted cfg s (job # rest)"
  shows "CompileNext cfg t s =
           Inr (s\<lparr>input_queue := rest, queue_length := queue_length s - 1,
                  output_queue := output_queue s @ [job],
                  heap := (heap s)(closure job := MarkedForInstalling),
                  trace := trace s @ [InputDequeue t job, Optimize t job, OutputEnqueue t job,
                                     Mark t (closure job)]\<rparr>)"
  using assms
  by (simp add: CompileNext_def vetted_def Let_def IsInRecompileQueue_def
      Barrier_AtomicIncrement_def MarkForInstallingRecompiledCode_def)


lemma Stop_loop_drains:
  assumes "output_queue s = []"
    and "queue_length s = of_nat (length (input_queue s))"
    and "length (input_queue s) < 2 ^ 31"
    and "vetted cfg s (input_queue s)"
  shows "Stop_loop cfg ExecutionThread s = Inr (drained ExecutionThread (input_queue s) s)"
  using assms
proof (induction "input_queue s" arbitrary: s)
  case Nil
  then show ?case
    by (subst Stop_loop.simps) (simp add: drained_def)
next
  case (Cons job rest)
  let ?s1 = "s\<lparr>input_queue := rest, queue_length := queue_length s - 1,
                  output_queue := output_queue s @ [job],
                  heap := (heap s)(closure job := MarkedForInstalling),
                  trace := trace s @ [InputDequeue ExecutionThread job,
                    Optimize ExecutionThread job, OutputEnqueue ExecutionThread job,
                    Mark ExecutionThread (closure job)]\<rparr>"
  let ?s2 = "s\<lparr>input_queue := rest, queue_length := queue_length s - 1,
                  heap := (heap s)(closure job := ActualCode),
                  trace := trace s @ [InputDequeue ExecutionThread job,
                    Optimize ExecutionThread job, OutputEnqueue ExecutionThread job,
                    Mark ExecutionThread (closure job), Install ExecutionThread job]\<rparr>"
  have iq: "input_queue s = job # rest" using Cons.hyps(2) by simp
  have c: "CompileNext cfg ExecutionThread s = Inr ?s1"
    using CompileNext_vetted [OF iq] Cons.prems(4) iq by simp
  have i: "InstallOptimizedFunctions cfg ExecutionThread ?s1 = Inr ?s2"
    using Cons.prems(1)
    by (simp add: InstallOptimizedFunctions_eq install_all_def eligible_def
        IsInRecompileQueue_def)
  have pos: "0 <s queue_length s"
    using Cons.prems(2,3) iq sless_of_nat_small [of "length (input_queue s)"] by simp
  have v: "vetted cfg ?s2 rest"
  proof (cases "DEBUG cfg")
    case False
    then show ?thesis by (simp add: vetted_def)
  next
    case True
    then have d: "distinct (map closure (job # rest))"
      and p: "\<forall>j \<in> set (job # rest).
                heap s (closure j) = InRecompileQueue \<and> OptimizeGraph j \<noteq> FAILED"
      using Cons.prems(4) iq by (simp_all add: vetted_def)
    have "closure j \<noteq> closure job" if "j \<in> set rest" for j
      using d that by (metis distinct.simps(2) image_eqI list.simps(9) set_map)
    then show ?thesis
      using d p by (simp add: vetted_def)
  qed
  have "Stop_loop cfg ExecutionThread ?s2 = Inr (drained ExecutionThread (input_queue ?s2) ?s2)"
    using Cons.prems(1,2,3) iq v
    by (intro Cons.hyps(1)) simp_all
  then show ?case
    using c i pos iq
    by (subst Stop_loop.simps) (simp add: drained_def)
qed

lemma waited_state:
  assumes "exec cfg ms (initial h) = Some sys" and "main sys = M_Stop_Flag"
  shows "queue_length (shared sys) = of_nat (length (input_queue (shared sys)))"
    and "\<forall>job \<in> set (output_queue (shared sys)). eligible (shared sys) job"
    and "enqueued (trace (shared sys)) =
           installed (trace (shared sys)) @ output_queue (shared sys) @ input_queue (shared sys)"
    and "compiled (trace (shared sys)) =
           installed (trace (shared sys)) @ output_queue (shared sys)"
proof -
  note i = invariant_reachable [OF assms(1)]
  have w: "worker sys = W_Return"
    using i assms(2) by (simp add: invariant_def handshake_def)
  show "queue_length (shared sys) = of_nat (length (input_queue (shared sys)))"
    using i w assms(2) by (simp add: invariant_def counter_def)
  show "\<forall>job \<in> set (output_queue (shared sys)). eligible (shared sys) job"
    using i w assms(2)
    by (auto simp: invariant_def published_marked_def eligible_def IsInRecompileQueue_def)
  show "enqueued (trace (shared sys)) =
           installed (trace (shared sys)) @ output_queue (shared sys) @ input_queue (shared sys)"
    using i w assms(2) by (simp add: invariant_def conservation_def pipeline_def)
  show "compiled (trace (shared sys)) =
           installed (trace (shared sys)) @ output_queue (shared sys)"
    using i w assms(2) by (simp add: invariant_def conservation_def)
qed

lemma Stop_after_Wait_drains:
  assumes "exec cfg ms (initial h) = Some sys" and "main sys = M_Stop_Flag"
    and "FLAG_parallel_recompilation_delay cfg \<noteq> 0"
    and "length (input_queue (shared sys)) < 2 ^ 31"
    and "vetted cfg (shared sys) (input_queue (shared sys))"
  shows "\<exists>s'. Stop_after_Wait cfg ExecutionThread (shared sys) = Inr s' \<and>
              input_queue s' = [] \<and> output_queue s' = [] \<and> queue_length s' = 0 \<and>
              compiled (trace s') = compiled (trace (shared sys)) @ input_queue (shared sys) \<and>
              compiled (trace s') = enqueued (trace s') \<and>
              installed (trace s') = enqueued (trace s')"
proof -
  let ?s = "shared sys"
  let ?s1 = "install_all ExecutionThread (output_queue ?s) ?s"
  note w = waited_state [OF assms(1,2)]
  have all: "takeWhile (eligible ?s) (output_queue ?s) = output_queue ?s"
    using w(2) by (simp add: takeWhile_eq_all_conv)
  have i: "InstallOptimizedFunctions cfg ExecutionThread ?s = Inr ?s1"
    using InstallOptimizedFunctions_eq [of cfg ?s] unfolding all .
  have v: "vetted cfg ?s1 (input_queue ?s1)"
  proof (cases "DEBUG cfg")
    case False
    then show ?thesis by (simp add: vetted_def)
  next
    case True
    have "closure job \<notin> closure ` set (output_queue ?s)" if "job \<in> set (input_queue ?s)"
      for job
    proof
      assume "closure job \<in> closure ` set (output_queue ?s)"
      then obtain job' where "job' \<in> set (output_queue ?s)" "closure job' = closure job"
        by auto
      then have "heap ?s (closure job) \<noteq> InRecompileQueue"
        using w(2) by (auto simp: eligible_def IsInRecompileQueue_def)
      then show False
        using assms(5) True that by (simp add: vetted_def)
    qed
    then show ?thesis
      using assms(5) True by (simp add: vetted_def install_all_def fold_install_heap)
  qed
  have l: "Stop_loop cfg ExecutionThread ?s1 = Inr (drained ExecutionThread (input_queue ?s1) ?s1)"
    using w(1) assms(4) v by (intro Stop_loop_drains) (simp_all add: install_all_def)
  have "Stop_after_Wait cfg ExecutionThread ?s =
          Inr (drained ExecutionThread (input_queue ?s) ?s1)"
    using assms(3) i l by (simp add: Stop_after_Wait_def install_all_def)
  then show ?thesis
    using w(3,4) by (simp add: drained_def install_all_def)
qed

subsection \<open>Progress\<close>
















lemma count_list_replicate_moves [simp]:
  "count_list (replicate n MainStep) WorkerStep = 0"
  "count_list (replicate n WorkerStep) WorkerStep = n"
  by (induction n) simp_all


subsection \<open>The member functions are the uninterrupted runs of the steps\<close>

lemma QueueForOptimization_run:
  assumes "main sys = M_Idle" and "failure sys = None"
    and "QueueForOptimization cfg ExecutionThread job (shared sys) = Inr s'"
  shows "exec cfg [MainCall (Call_QueueForOptimization job), MainStep, MainStep, MainStep] sys =
           Some (sys\<lparr>shared := s'\<rparr>)"
  using assms
  by (auto simp: QueueForOptimization_def step_def call_step_def main_step_def Let_def
      split: if_splits)

lemma CompileNext_run_worker:
  assumes "worker sys = W_CompileNext C_Dequeue" and "failure sys = None"
    and "CompileNext cfg OptimizerThread (shared sys) = Inr s'"
  shows "exec cfg (replicate 5 WorkerStep) sys = Some (sys\<lparr>shared := s', worker := W_Wait\<rparr>)"
proof -
  obtain job rest where jr: "input_queue (shared sys) = job # rest"
    using CompileNext_Inr(1) [OF assms(3)] by (cases "input_queue (shared sys)") auto
  have five: "replicate 5 WorkerStep =
                [WorkerStep, WorkerStep, WorkerStep, WorkerStep, WorkerStep]"
    by (simp add: numeral_eq_Suc)
  show ?thesis
    using assms jr unfolding five
    by (auto simp: CompileNext_def step_def worker_step_def CompileNext_step_def Let_def
        split: if_splits)
qed

lemma CompileNext_run_main:
  assumes "main sys = M_Stop_CompileNext C_Dequeue" and "failure sys = None"
    and "CompileNext cfg ExecutionThread (shared sys) = Inr s'"
  shows "exec cfg (replicate 5 MainStep) sys =
           Some (sys\<lparr>shared := s', main := M_Install_Loop To_Stop_Loop\<rparr>)"
proof -
  obtain job rest where jr: "input_queue (shared sys) = job # rest"
    using CompileNext_Inr(1) [OF assms(3)] by (cases "input_queue (shared sys)") auto
  have five: "replicate 5 MainStep = [MainStep, MainStep, MainStep, MainStep, MainStep]"
    by (simp add: numeral_eq_Suc)
  show ?thesis
    using assms jr unfolding five
    by (auto simp: CompileNext_def step_def main_step_def CompileNext_step_def Let_def
        split: if_splits)
qed

lemma InstallOptimizedFunctions_run:
  assumes "main sys = M_Install_Loop r" and "failure sys = None"
  shows "\<exists>n. exec cfg (replicate n MainStep) sys =
           Some (sys\<lparr>shared := install_all ExecutionThread
                     (takeWhile (eligible (shared sys)) (output_queue (shared sys)))
                     (shared sys),
                    main := return_pc r\<rparr>)"
  using assms
proof (induction "output_queue (shared sys)" arbitrary: sys)
  case Nil
  then have "exec cfg (replicate 1 MainStep) sys =
           Some (sys\<lparr>shared := install_all ExecutionThread
                     (takeWhile (eligible (shared sys)) (output_queue (shared sys)))
                     (shared sys),
                    main := return_pc r\<rparr>)"
    by (simp add: step_def main_step_def Let_def install_all_def)
  then show ?case by blast
next
  case (Cons job rest)
  have oq: "output_queue (shared sys) = job # rest" using Cons.hyps(2) by simp
  show ?case
  proof (cases "eligible (shared sys) job")
    case False
    then have "exec cfg (replicate 1 MainStep) sys =
           Some (sys\<lparr>shared := install_all ExecutionThread
                     (takeWhile (eligible (shared sys)) (output_queue (shared sys)))
                     (shared sys),
                    main := return_pc r\<rparr>)"
      using Cons.prems oq
      by (simp add: step_def main_step_def Let_def install_all_def eligible_def)
    then show ?thesis by blast
  next
    case True
    let ?s2 = "InstallOptimizedCode ExecutionThread job ((shared sys)\<lparr>output_queue := rest\<rparr>)"
    let ?sys2 = "sys\<lparr>shared := ?s2, main := M_Install_Loop r\<rparr>"
    have two: "exec cfg [MainStep, MainStep] sys = Some ?sys2"
      using Cons.prems oq True
      by (simp add: step_def main_step_def Let_def eligible_def InstallOptimizedCode_def
          IsInRecompileQueue_def)
    have same: "takeWhile (eligible ?s2) rest = takeWhile (eligible (shared sys)) rest"
      using eligible_after_install [OF True] by (intro takeWhile_cong) auto
    have "rest = output_queue (shared ?sys2)"
      by (simp add: InstallOptimizedCode_def)
    then obtain n where n: "exec cfg (replicate n MainStep) ?sys2 =
           Some (?sys2\<lparr>shared := install_all ExecutionThread
                     (takeWhile (eligible (shared ?sys2)) (output_queue (shared ?sys2)))
                     (shared ?sys2),
                    main := return_pc r\<rparr>)"
      using Cons.hyps(1) [of ?sys2] Cons.prems by auto
    have r: "replicate (Suc (Suc n)) MainStep = [MainStep, MainStep] @ replicate n MainStep"
      by simp
    have run: "exec cfg (replicate (Suc (Suc n)) MainStep) sys =
                 exec cfg (replicate n MainStep) ?sys2"
      unfolding r exec_append two by simp
    have eq: "?sys2\<lparr>shared := install_all ExecutionThread
                     (takeWhile (eligible (shared ?sys2)) (output_queue (shared ?sys2)))
                     (shared ?sys2),
                    main := return_pc r\<rparr> =
              sys\<lparr>shared := install_all ExecutionThread
                     (takeWhile (eligible (shared sys)) (output_queue (shared sys)))
                     (shared sys),
                    main := return_pc r\<rparr>"
      using oq True same by (simp add: install_all_def InstallOptimizedCode_def)
    have "exec cfg (replicate (Suc (Suc n)) MainStep) sys =
           Some (sys\<lparr>shared := install_all ExecutionThread
                     (takeWhile (eligible (shared sys)) (output_queue (shared sys)))
                     (shared sys),
                    main := return_pc r\<rparr>)"
      unfolding run n eq ..
    then show ?thesis by blast
  qed
qed

lemma Stop_loop_run:
  assumes "main sys = M_Stop_Loop" and "failure sys = None"
    and "Stop_loop cfg ExecutionThread (shared sys) = Inr s'"
  shows "\<exists>n. exec cfg (replicate n MainStep) sys =
               Some (sys\<lparr>shared := s', main := M_Stop_Trace\<rparr>)"
  using assms
proof (induction "length (input_queue (shared sys))" arbitrary: sys rule: less_induct)
  case less
  show ?case
  proof (cases "0 <s queue_length (shared sys)")
    case False
    then have "s' = shared sys"
      using less.prems(3) by (subst (asm) Stop_loop.simps) simp
    then have "exec cfg (replicate 1 MainStep) sys =
                 Some (sys\<lparr>shared := s', main := M_Stop_Trace\<rparr>)"
      using False less.prems(1,2) by (simp add: step_def main_step_def Let_def)
    then show ?thesis by blast
  next
    case True
    obtain s1 s2 where c: "CompileNext cfg ExecutionThread (shared sys) = Inr s1"
      and i: "InstallOptimizedFunctions cfg ExecutionThread s1 = Inr s2"
      and l: "Stop_loop cfg ExecutionThread s2 = Inr s'"
      using less.prems(3) True
      by (subst (asm) Stop_loop.simps) (auto split: sum.splits)
    let ?a = "sys\<lparr>main := M_Stop_CompileNext C_Dequeue\<rparr>"
    let ?b = "?a\<lparr>shared := s1, main := M_Install_Loop To_Stop_Loop\<rparr>"
    have a: "exec cfg (replicate 1 MainStep) sys = Some ?a"
      using True less.prems(1,2) by (simp add: step_def main_step_def Let_def)
    have b: "exec cfg (replicate 5 MainStep) ?a = Some ?b"
      using CompileNext_run_main [of ?a cfg s1] less.prems(2) c by simp
    have s2: "s2 = install_all ExecutionThread (takeWhile (eligible s1) (output_queue s1)) s1"
      using i by (simp add: InstallOptimizedFunctions_eq)
    obtain n where n: "exec cfg (replicate n MainStep) ?b =
                         Some (?b\<lparr>shared := s2, main := M_Stop_Loop\<rparr>)"
      using InstallOptimizedFunctions_run [of ?b To_Stop_Loop cfg] less.prems(2) s2
      by (auto simp: return_pc_def)
    let ?c = "?b\<lparr>shared := s2, main := M_Stop_Loop\<rparr>"
    have shorter: "length (input_queue (shared ?c)) < length (input_queue (shared sys))"
      using CompileNext_Inr(1,2) [OF c] InstallOptimizedFunctions_Inr [OF i] by simp
    obtain k where k: "exec cfg (replicate k MainStep) ?c =
                         Some (?c\<lparr>shared := s', main := M_Stop_Trace\<rparr>)"
      using less.hyps [OF shorter] less.prems(2) l by auto
    note run = exec_replicate_then [OF a exec_replicate_then [OF b
          exec_replicate_then [OF n k]]]
    have "?c\<lparr>shared := s', main := M_Stop_Trace\<rparr> = sys\<lparr>shared := s', main := M_Stop_Trace\<rparr>"
      by simp
    with run have "exec cfg (replicate (1 + (5 + (n + k))) MainStep) sys =
            Some (sys\<lparr>shared := s', main := M_Stop_Trace\<rparr>)"
      by (simp only:)
    then show ?thesis by blast
  qed
qed

lemma Stop_after_Wait_run:
  assumes "main sys = M_Stop_Flag" and "failure sys = None"
    and "Stop_after_Wait cfg ExecutionThread (shared sys) = Inr s'"
  shows "\<exists>n. exec cfg (replicate n MainStep) sys =
               Some (sys\<lparr>shared := s', main := M_Stop_Trace\<rparr>)"
proof (cases "FLAG_parallel_recompilation_delay cfg = 0")
  case True
  then have "s' = shared sys"
    using assms(3) by (simp add: Stop_after_Wait_def)
  then have "exec cfg (replicate 1 MainStep) sys =
               Some (sys\<lparr>shared := s', main := M_Stop_Trace\<rparr>)"
    using True assms(1,2) by (simp add: step_def main_step_def Let_def)
  then show ?thesis by blast
next
  case False
  obtain s1 where i: "InstallOptimizedFunctions cfg ExecutionThread (shared sys) = Inr s1"
    and l: "Stop_loop cfg ExecutionThread s1 = Inr s'"
    using assms(3) False by (auto simp: Stop_after_Wait_def split: sum.splits)
  let ?a = "sys\<lparr>main := M_Install_Loop To_Stop_Loop\<rparr>"
  have a: "exec cfg (replicate 1 MainStep) sys = Some ?a"
    using False assms(1,2) by (simp add: step_def main_step_def Let_def)
  have s1: "s1 = install_all ExecutionThread
              (takeWhile (eligible (shared sys)) (output_queue (shared sys))) (shared sys)"
    using i by (simp add: InstallOptimizedFunctions_eq)
  obtain n where n: "exec cfg (replicate n MainStep) ?a =
                       Some (?a\<lparr>shared := s1, main := M_Stop_Loop\<rparr>)"
    using InstallOptimizedFunctions_run [of ?a To_Stop_Loop cfg] assms(2) s1
    by (auto simp: return_pc_def)
  let ?b = "?a\<lparr>shared := s1, main := M_Stop_Loop\<rparr>"
  obtain k where k: "exec cfg (replicate k MainStep) ?b =
                       Some (?b\<lparr>shared := s', main := M_Stop_Trace\<rparr>)"
    using Stop_loop_run [of ?b cfg s'] assms(2) l by auto
  note run = exec_replicate_then [OF a exec_replicate_then [OF n k]]
  have "?b\<lparr>shared := s', main := M_Stop_Trace\<rparr> = sys\<lparr>shared := s', main := M_Stop_Trace\<rparr>"
    by simp
  with run have "exec cfg (replicate (1 + (n + k)) MainStep) sys =
          Some (sys\<lparr>shared := s', main := M_Stop_Trace\<rparr>)"
    by (simp only:)
  then show ?thesis by blast
qed

subsection \<open>Running the examples\<close>

lemmas run_simps = step_def worker_step_def main_step_def call_step_def CompileNext_step_def
  initial_def Let_def return_pc_def IsOptimizerThread_def IsInRecompileQueue_def
  InstallOptimizedCode_def Barrier_AtomicIncrement_def MarkForInstallingRecompiledCode_def
  release_build_def debug_build_def job_for_def all_queued_def

lemmas debug_run_simps = step_def worker_step_def main_step_def call_step_def
  CompileNext_step_def initial_def Let_def return_pc_def IsOptimizerThread_def
  IsInRecompileQueue_def InstallOptimizedCode_def Barrier_AtomicIncrement_def
  MarkForInstallingRecompiledCode_def debug_delay_build_def job_for_def all_queued_def

lemma one_job_compiled_run:
  "exec release_build one_job_compiled (initial all_queued) =
     Some \<lparr>shared = \<lparr>input_queue = [], output_queue = [job_for 1], queue_length = 0,
        stop_thread = False, input_queue_semaphore = 0, stop_semaphore = 0,
        heap = all_queued(1 := MarkedForInstalling),
        trace = [InputEnqueue ExecutionThread (job_for 1),
                 InputDequeue OptimizerThread (job_for 1),
                 Optimize OptimizerThread (job_for 1),
                 OutputEnqueue OptimizerThread (job_for 1),
                 Mark OptimizerThread 1]\<rparr>,
        worker = W_Wait, main = M_Idle, failure = None\<rparr>"
  by (simp add: one_job_compiled_def run_simps)

lemma stop_while_waiting_run:
  "exec release_build stop_while_waiting (initial all_queued) = Some waiting_at_stop"
  by (simp add: stop_while_waiting_def waiting_at_stop_def run_simps)

lemma stop_in_flight_run:
  "exec release_build stop_in_flight (initial all_queued) = Some in_flight_at_stop"
  by (simp add: stop_in_flight_def in_flight_at_stop_def run_simps)

lemma finish_and_return_run:
  "exec release_build finish_and_return in_flight_at_stop = Some returned_after_stop"
  by (simp add: finish_and_return_def in_flight_at_stop_def returned_after_stop_def run_simps)

lemma acknowledged_with_work_run:
  "exec release_build (stop_while_waiting @ [WorkerStep, WorkerStep, WorkerStep])
     (initial all_queued) = Some acknowledged_with_work"
  by (simp add: stop_while_waiting_def acknowledged_with_work_def run_simps)

lemma stopped_with_work_run:
  "exec release_build [MainStep, MainStep, MainStep] acknowledged_with_work =
     Some stopped_with_work"
  by (simp add: stopped_with_work_def acknowledged_with_work_def run_simps)

lemma two_queued_one_taken_run:
  "exec release_build two_queued_one_taken (initial all_queued) = Some one_left"
  by (simp add: two_queued_one_taken_def one_left_def run_simps)

lemma install_called_run:
  "exec release_build install_called (initial all_queued) = Some install_entry"
  by (simp add: install_called_def install_entry_def run_simps)

lemma install_tested_run:
  "exec release_build (install_called @ [MainStep]) (initial all_queued) = Some install_tested"
  using install_called_run
  by (simp add: exec_append install_tested_def install_entry_def run_simps)

lemma install_one_step:
  "step release_build MainStep install_tested = Some install_one"
  by (simp add: install_tested_def install_one_def install_entry_def run_simps)

lemma install_overlapped_run:
  "exec release_build install_overlapped install_entry = Some install_exit"
  by (simp add: install_overlapped_def install_entry_def install_exit_def run_simps)


lemma stop_acknowledged_run:
  "exec debug_delay_build (three_queued @ stop_acknowledged) (initial all_queued) =
     Some three_left_at_stop"
  by (simp add: three_queued_def stop_acknowledged_def three_left_at_stop_def debug_run_simps)





section \<open>Properties of the member functions\<close>

subsection \<open>InstallOptimizedFunctions\<close>

text \<open>
  Claim C9. \<open>InstallOptimizedFunctions\<close> called on an empty output queue, or on an output
  queue whose front job still belongs to a function that is in the recompile queue, returns
  at once (no function installed) and changes nothing: the state it returns is the state it
  was given, queues, counter, function records and all.
\<close>

theorem InstallOptimizedFunctions_noop:
  assumes "output_queue s = [] \<or> IsInRecompileQueue (heap s (closure (hd (output_queue s))))"
  shows "InstallOptimizedFunctions cfg ExecutionThread s = Inr s \<and>
         InstallOptimizedFunctions_loop cfg ExecutionThread 0 s = Inr (0, s)"
proof -
  have "takeWhile (eligible s) (output_queue s) = []"
    using assms by (cases "output_queue s") (auto simp: eligible_def)
  then show ?thesis
    by (simp add: InstallOptimizedFunctions_eq InstallOptimizedFunctions_loop_eq install_all_def)
qed

theorem InstallOptimizedFunctions_noop_witness:
  "InstallOptimizedFunctions debug_build ExecutionThread (idle [job_for 3] [] all_queued)
     = Inr (idle [job_for 3] [] all_queued) \<and>
   InstallOptimizedFunctions debug_build ExecutionThread
       (idle [] [job_for 1, job_for 2] (all_queued(2 := MarkedForInstalling)))
     = Inr (idle [] [job_for 1, job_for 2] (all_queued(2 := MarkedForInstalling)))"
  using InstallOptimizedFunctions_noop [of "idle [job_for 3] [] all_queued" debug_build]
    InstallOptimizedFunctions_noop
      [of "idle [] [job_for 1, job_for 2] (all_queued(2 := MarkedForInstalling))" debug_build]
  by (simp add: idle_def job_for_def all_queued_def IsInRecompileQueue_def)

text \<open>
  Claim C2. \<open>InstallOptimizedFunctions\<close> installs exactly the longest prefix of the output
  queue whose jobs are eligible (their function no longer reads as in the recompile queue),
  in order, and leaves the rest of the queue in place: it stops at the first job that is
  not eligible, whatever follows it. And in every interleaving of the two threads, a step
  that shortens the output queue is a step of the execution thread that removes the front
  job, whose function does not read as in the recompile queue at that moment, and installs
  it: no job is dequeued while its function is still in the recompile queue.
\<close>

theorem InstallOptimizedFunctions_eligible_prefix:
  "InstallOptimizedFunctions cfg ExecutionThread s =
     Inr (install_all ExecutionThread (takeWhile (eligible s) (output_queue s)) s) \<and>
   output_queue (install_all ExecutionThread (takeWhile (eligible s) (output_queue s)) s) =
     dropWhile (eligible s) (output_queue s) \<and>
   (exec cfg ms (initial h) = Some sys \<and> step cfg m sys = Some sys' \<and>
    length (output_queue (shared sys')) < length (output_queue (shared sys)) \<longrightarrow>
      (\<exists>job. m = MainStep \<and> output_queue (shared sys) = job # output_queue (shared sys') \<and>
         eligible (shared sys) job \<and>
         trace (shared sys') = trace (shared sys) @ [Install ExecutionThread job]))"
proof (intro conjI impI)
  show "InstallOptimizedFunctions cfg ExecutionThread s =
     Inr (install_all ExecutionThread (takeWhile (eligible s) (output_queue s)) s)"
    by (simp add: InstallOptimizedFunctions_eq)
next
  show "output_queue (install_all ExecutionThread (takeWhile (eligible s) (output_queue s)) s) =
     dropWhile (eligible s) (output_queue s)"
    by (simp add: install_all_def dropWhile_eq_drop)
next
  assume a: "exec cfg ms (initial h) = Some sys \<and> step cfg m sys = Some sys' \<and>
    length (output_queue (shared sys')) < length (output_queue (shared sys))"
  then have "front_eligible sys"
    using invariant_reachable [of cfg ms h sys] by (simp add: invariant_def)
  then show "\<exists>job. m = MainStep \<and> output_queue (shared sys) = job # output_queue (shared sys') \<and>
         eligible (shared sys) job \<and>
         trace (shared sys') = trace (shared sys) @ [Install ExecutionThread job]"
    using a output_dequeue_eligible by blast
qed

theorem InstallOptimizedFunctions_eligible_prefix_witness:
  "InstallOptimizedFunctions release_build ExecutionThread
      (idle [] [job_for 1, job_for 2, job_for 3, job_for 4]
         (all_queued(1 := MarkedForInstalling, 2 := ActualCode, 4 := MarkedForInstalling)))
   = Inr \<lparr>input_queue = [], output_queue = [job_for 3, job_for 4], queue_length = 0,
      stop_thread = False, input_queue_semaphore = 0, stop_semaphore = 0,
      heap = all_queued(1 := ActualCode, 2 := ActualCode, 4 := MarkedForInstalling),
      trace = [Install ExecutionThread (job_for 1), Install ExecutionThread (job_for 2)]\<rparr> \<and>
   (\<exists>job. output_queue (shared install_tested) = job # output_queue (shared install_one) \<and>
      eligible (shared install_tested) job)"
proof -
  note t = InstallOptimizedFunctions_eligible_prefix [of release_build
      "idle [] [job_for 1, job_for 2, job_for 3, job_for 4]
         (all_queued(1 := MarkedForInstalling, 2 := ActualCode, 4 := MarkedForInstalling))"
      "install_called @ [MainStep]" all_queued install_tested MainStep install_one]
  have 1: "InstallOptimizedFunctions release_build ExecutionThread
      (idle [] [job_for 1, job_for 2, job_for 3, job_for 4]
         (all_queued(1 := MarkedForInstalling, 2 := ActualCode, 4 := MarkedForInstalling)))
   = Inr \<lparr>input_queue = [], output_queue = [job_for 3, job_for 4], queue_length = 0,
      stop_thread = False, input_queue_semaphore = 0, stop_semaphore = 0,
      heap = all_queued(1 := ActualCode, 2 := ActualCode, 4 := MarkedForInstalling),
      trace = [Install ExecutionThread (job_for 1), Install ExecutionThread (job_for 2)]\<rparr>"
    using t [THEN conjunct1]
    by (simp add: idle_def job_for_def all_queued_def IsInRecompileQueue_def eligible_def
      install_all_def fun_upd_twist)
  have "length (output_queue (shared install_one)) < length (output_queue (shared install_tested))"
    by (simp add: install_one_def install_tested_def install_entry_def)
  then have 2: "\<exists>job. output_queue (shared install_tested) = job # output_queue (shared install_one) \<and>
      eligible (shared install_tested) job"
    using t [THEN conjunct2, THEN conjunct2] install_tested_run install_one_step by blast
  show ?thesis using 1 2 by simp
qed

subsection \<open>CompileNext\<close>

text \<open>
  Claim C1. Every \<open>CompileNext\<close> that returns has enqueued its job into the output queue
  and then, as its last action, marked the job's function for installing. In every
  interleaving of the two threads, each marking by a thread comes directly after that
  thread's own enqueue, into the output queue, of a job for the marked function: the mark
  never comes first.
\<close>

theorem CompileNext_enqueues_before_flipping:
  "(CompileNext cfg t s = Inr s' \<longrightarrow>
      (\<exists>job. input_queue s = job # input_queue s' \<and>
         trace s' = trace s @ [InputDequeue t job, Optimize t job, OutputEnqueue t job,
                               Mark t (closure job)])) \<and>
   (exec cfg ms (initial h) = Some sys \<and> trace (shared sys) = pre @ Mark t' f # post \<longrightarrow>
      (\<exists>before job. own t' pre = before @ [OutputEnqueue t' job] \<and> closure job = f))"
proof (intro conjI impI)
  assume "CompileNext cfg t s = Inr s'"
  then show "\<exists>job. input_queue s = job # input_queue s' \<and>
         trace s' = trace s @ [InputDequeue t job, Optimize t job, OutputEnqueue t job,
                               Mark t (closure job)]"
    by (rule CompileNext_trace)
next
  assume a: "exec cfg ms (initial h) = Some sys \<and> trace (shared sys) = pre @ Mark t' f # post"
  then have "ordering sys"
    using ordering_reachable by blast
  then have "flips_follow (pre @ Mark t' f # post)"
    using a by (simp add: ordering_def)
  then show "\<exists>before job. own t' pre = before @ [OutputEnqueue t' job] \<and> closure job = f"
    unfolding flips_follow_def by blast
qed

theorem CompileNext_enqueues_before_flipping_witness:
  "(\<exists>job. [job_for 1] = [job] \<and>
      [InputDequeue OptimizerThread (job_for 1), Optimize OptimizerThread (job_for 1),
       OutputEnqueue OptimizerThread (job_for 1), Mark OptimizerThread 1] =
      [InputDequeue OptimizerThread job, Optimize OptimizerThread job,
       OutputEnqueue OptimizerThread job, Mark OptimizerThread (closure job)]) \<and>
   (\<exists>before job.
      own OptimizerThread [InputEnqueue ExecutionThread (job_for 1),
                 InputDequeue OptimizerThread (job_for 1),
                 Optimize OptimizerThread (job_for 1),
                 OutputEnqueue OptimizerThread (job_for 1)] =
        before @ [OutputEnqueue OptimizerThread job] \<and> closure job = 1)"
proof -
  let ?s = "idle [job_for 1] [] all_queued"
  let ?s' = "\<lparr>input_queue = [], output_queue = [job_for 1], queue_length = 0,
          stop_thread = False, input_queue_semaphore = 1, stop_semaphore = 0,
          heap = all_queued(1 := MarkedForInstalling),
          trace = [InputDequeue OptimizerThread (job_for 1),
                   Optimize OptimizerThread (job_for 1),
                   OutputEnqueue OptimizerThread (job_for 1),
                   Mark OptimizerThread 1]\<rparr>"
  let ?sys = "\<lparr>shared = \<lparr>input_queue = [], output_queue = [job_for 1], queue_length = 0,
        stop_thread = False, input_queue_semaphore = 0, stop_semaphore = 0,
        heap = all_queued(1 := MarkedForInstalling),
        trace = [InputEnqueue ExecutionThread (job_for 1),
                 InputDequeue OptimizerThread (job_for 1),
                 Optimize OptimizerThread (job_for 1),
                 OutputEnqueue OptimizerThread (job_for 1),
                 Mark OptimizerThread 1]\<rparr>,
        worker = W_Wait, main = M_Idle, failure = None\<rparr>"
  have c: "CompileNext release_build OptimizerThread ?s = Inr ?s'"
    by (simp add: CompileNext_def idle_def job_for_def release_build_def Let_def
        Barrier_AtomicIncrement_def MarkForInstallingRecompiledCode_def)
  note t = CompileNext_enqueues_before_flipping
    [of release_build OptimizerThread ?s ?s' one_job_compiled all_queued ?sys
        "[InputEnqueue ExecutionThread (job_for 1),
                 InputDequeue OptimizerThread (job_for 1),
                 Optimize OptimizerThread (job_for 1),
                 OutputEnqueue OptimizerThread (job_for 1)]" OptimizerThread 1 "[]"]
  show ?thesis
    using t c one_job_compiled_run
    by (simp add: idle_def job_for_def)
qed

text \<open>
  Claim C6, as the code has it. When \<open>OptimizeGraph\<close> returns \<open>FAILED\<close> for the job at the
  front of the input queue, a debug build stops at an assertion; a release build discards
  the status and publishes and marks the job like any other. In neither build is the job
  put back into the input queue.
\<close>

theorem CompileNext_FAILED:
  assumes "input_queue s = job # rest" and "OptimizeGraph job = FAILED"
  shows "(DEBUG cfg \<longrightarrow> CompileNext cfg t s = Inl AssertionFailed) \<and>
         (\<not> DEBUG cfg \<longrightarrow>
            (\<exists>s'. CompileNext cfg t s = Inr s' \<and> input_queue s' = rest \<and>
                  output_queue s' = output_queue s @ [job] \<and>
                  heap s' (closure job) = MarkedForInstalling \<and>
                  trace s' = trace s @ [InputDequeue t job, Optimize t job,
                                        OutputEnqueue t job, Mark t (closure job)]))"
  using assms
  by (simp add: CompileNext_def Let_def MarkForInstallingRecompiledCode_def)

theorem CompileNext_FAILED_witness:
  "CompileNext debug_build OptimizerThread (idle [failing_job_for 1] [] all_queued)
     = Inl AssertionFailed \<and>
   (\<exists>s'. CompileNext release_build OptimizerThread (idle [failing_job_for 1] [] all_queued) = Inr s' \<and>
      input_queue s' = [] \<and> output_queue s' = [failing_job_for 1] \<and>
      heap s' 1 = MarkedForInstalling)"
  using CompileNext_FAILED [of "idle [failing_job_for 1] [] all_queued" "failing_job_for 1" "[]"
      debug_build OptimizerThread]
    CompileNext_FAILED [of "idle [failing_job_for 1] [] all_queued" "failing_job_for 1" "[]"
      release_build OptimizerThread]
  by (auto simp: idle_def failing_job_for_def debug_build_def release_build_def)

text \<open>
  The claim as the spec words it (a \<open>FAILED\<close> status is never silently ignored) fails in a
  release build: the failed job comes out of \<open>CompileNext\<close> published and marked for
  installing, and no error is raised.
\<close>

theorem CompileNext_FAILED_ignored_in_release:
  "CompileNext release_build OptimizerThread (idle [failing_job_for 1] [] all_queued) =
     Inr \<lparr>input_queue = [], output_queue = [failing_job_for 1], queue_length = 0,
          stop_thread = False, input_queue_semaphore = 1, stop_semaphore = 0,
          heap = all_queued(1 := MarkedForInstalling),
          trace = [InputDequeue OptimizerThread (failing_job_for 1),
                   Optimize OptimizerThread (failing_job_for 1),
                   OutputEnqueue OptimizerThread (failing_job_for 1),
                   Mark OptimizerThread 1]\<rparr>"
  by (simp add: CompileNext_def idle_def failing_job_for_def release_build_def Let_def
      Barrier_AtomicIncrement_def MarkForInstallingRecompiledCode_def)

section \<open>Properties of the two threads together\<close>

subsection \<open>Stopping\<close>

text \<open>
  Claim C7. Take any state the two threads can reach in which \<open>Stop\<close> has stored the flag,
  signalled the semaphore of the input queue and is waiting for the acknowledgement. If the
  optimizer thread is waiting, its next three steps wake it, read the flag and signal the
  acknowledgement, and it returns; the queues, the counter and the function records are as
  before. In any continuation the optimizer thread dequeues at most one more job, and only
  if it had already passed the test of the flag and not yet dequeued.
\<close>

theorem worker_stops_on_flag:
  assumes "exec cfg ms (initial h) = Some sys" and "main sys = M_Stop_Wait"
    and "failure sys = None"
  shows "(worker sys = W_Wait \<longrightarrow>
            exec cfg [WorkerStep, WorkerStep, WorkerStep] sys =
              Some (sys\<lparr>shared := (shared sys)\<lparr>
                           input_queue_semaphore := input_queue_semaphore (shared sys) - 1,
                           stop_semaphore := stop_semaphore (shared sys) + 1\<rparr>,
                        worker := W_Return\<rparr>)) \<and>
         (exec cfg ms' sys = Some sys' \<longrightarrow>
            length (dequeued OptimizerThread (trace (shared sys'))) \<le>
              length (dequeued OptimizerThread (trace (shared sys))) + compiles_left (worker sys))"
proof (intro conjI impI)
  assume "worker sys = W_Wait"
  then show "exec cfg [WorkerStep, WorkerStep, WorkerStep] sys =
              Some (sys\<lparr>shared := (shared sys)\<lparr>
                           input_queue_semaphore := input_queue_semaphore (shared sys) - 1,
                           stop_semaphore := stop_semaphore (shared sys) + 1\<rparr>,
                        worker := W_Return\<rparr>)"
    using woken_worker_returns [OF invariant_reachable [OF assms(1)] assms(2,3)] by simp
next
  assume e: "exec cfg ms' sys = Some sys'"
  have "stop_thread (shared sys)"
    using invariant_reachable [OF assms(1)] assms(2) by (simp add: invariant_def handshake_def)
  then show "length (dequeued OptimizerThread (trace (shared sys'))) \<le>
              length (dequeued OptimizerThread (trace (shared sys))) + compiles_left (worker sys)"
    using stopping_exec [OF e] by simp
qed

theorem worker_stops_on_flag_witness:
  "exec release_build [WorkerStep, WorkerStep, WorkerStep] waiting_at_stop =
     Some (waiting_at_stop\<lparr>shared := (shared waiting_at_stop)\<lparr>
                           input_queue_semaphore := 1, stop_semaphore := 1\<rparr>,
                        worker := W_Return\<rparr>) \<and>
   length (dequeued OptimizerThread (trace (shared returned_after_stop))) \<le> 1"
proof -
  note a = worker_stops_on_flag [OF stop_while_waiting_run, of "[]" waiting_at_stop]
  note b = worker_stops_on_flag [OF stop_in_flight_run, of finish_and_return returned_after_stop]
  have "exec release_build [WorkerStep, WorkerStep, WorkerStep] waiting_at_stop =
     Some (waiting_at_stop\<lparr>shared := (shared waiting_at_stop)\<lparr>
                           input_queue_semaphore := 1, stop_semaphore := 1\<rparr>,
                        worker := W_Return\<rparr>)"
    using a by (simp add: waiting_at_stop_def)
  moreover have "length (dequeued OptimizerThread (trace (shared returned_after_stop))) \<le> 1"
    using b finish_and_return_run by (simp add: in_flight_at_stop_def dequeued_def)
  ultimately show ?thesis by simp
qed

text \<open>
  Claim C5, as the code has it. With the delay flag at zero, from the moment the stop flag
  is set the optimizer thread dequeues at most one more job (the one it was committed to,
  having passed the test of the flag), and the execution thread dequeues none. Once the
  optimizer thread has returned, the jobs in the input queue stay there for good, nothing
  more is compiled, and only compiled jobs are ever installed. The part of \<open>Stop\<close> after
  the wait returns the state as it is: the drain does not run.
\<close>

theorem Stop_without_delay:
  assumes "exec cfg ms (initial h) = Some sys" and "FLAG_parallel_recompilation_delay cfg = 0"
    and "stop_thread (shared sys)" and "exec cfg ms' sys = Some sys'"
  shows "length (dequeued OptimizerThread (trace (shared sys'))) \<le>
           length (dequeued OptimizerThread (trace (shared sys))) + compiles_left (worker sys) \<and>
         dequeued ExecutionThread (trace (shared sys')) = [] \<and>
         (worker sys = W_Return \<longrightarrow>
            (\<exists>more. input_queue (shared sys') = input_queue (shared sys) @ more) \<and>
            compiled (trace (shared sys')) = compiled (trace (shared sys))) \<and>
         (\<exists>rest. compiled (trace (shared sys')) = installed (trace (shared sys')) @ rest) \<and>
         Stop_after_Wait cfg ExecutionThread (shared sys) = Inr (shared sys)"
proof -
  note i = invariant_reachable [OF assms(1)]
  have e: "exec cfg (ms @ ms') (initial h) = Some sys'"
    using assms(1,4) by (simp add: exec_append)
  have "dequeued ExecutionThread (trace (shared sys')) =
        dequeued ExecutionThread (trace (shared (initial h)))"
    using no_drain_exec [OF e assms(2) invariant_initial] .
  then have a: "dequeued ExecutionThread (trace (shared sys')) = []"
    by (simp add: initial_def dequeued_def)
  have b: "length (dequeued OptimizerThread (trace (shared sys'))) \<le>
           length (dequeued OptimizerThread (trace (shared sys))) + compiles_left (worker sys)"
    using stopping_exec [OF assms(4,3)] by simp
  have c: "worker sys = W_Return \<longrightarrow>
            (\<exists>more. input_queue (shared sys') = input_queue (shared sys) @ more) \<and>
            compiled (trace (shared sys')) = compiled (trace (shared sys))"
    using returned_exec [OF assms(4,2) i] by simp
  have d: "\<exists>rest. compiled (trace (shared sys')) = installed (trace (shared sys')) @ rest"
    using invariant_reachable [OF e] by (simp add: invariant_def conservation_def)
  show ?thesis
    using a b c d Stop_after_Wait_no_delay [OF assms(2)] by simp
qed

theorem Stop_without_delay_witness:
  "input_queue (shared stopped_with_work) = [job_for 1] \<and>
   queue_length (shared stopped_with_work) = 1 \<and>
   compiled (trace (shared stopped_with_work)) = [] \<and>
   installed (trace (shared stopped_with_work)) = [] \<and>
   Stop_after_Wait release_build ExecutionThread (shared acknowledged_with_work) =
     Inr (shared acknowledged_with_work)"
  using Stop_without_delay [OF acknowledged_with_work_run _ _ stopped_with_work_run]
  by (simp add: release_build_def acknowledged_with_work_def stopped_with_work_def
      compiled_def installed_def)

text \<open>
  The claim as worded (jobs in the input queue when \<open>Stop\<close> is called are never compiled,
  and \<open>Stop\<close> leaves the input queue non-empty) fails when the optimizer thread has passed
  the test of the flag before the flag is set: the job is in the input queue when \<open>Stop\<close>
  has set the flag and signalled, and it is compiled before \<open>Stop\<close> returns, with the input
  queue empty and the counter at zero.
\<close>

theorem Stop_compiles_job_queued_at_call:
  "exec release_build stop_in_flight (initial all_queued) = Some in_flight_at_stop \<and>
   FLAG_parallel_recompilation_delay release_build = 0 \<and>
   main in_flight_at_stop = M_Stop_Wait \<and>
   input_queue (shared in_flight_at_stop) = [job_for 1] \<and>
   exec release_build finish_and_return in_flight_at_stop = Some returned_after_stop \<and>
   main returned_after_stop = M_Idle \<and>
   input_queue (shared returned_after_stop) = [] \<and>
   queue_length (shared returned_after_stop) = 0 \<and>
   compiled (trace (shared returned_after_stop)) = [job_for 1]"
  using stop_in_flight_run finish_and_return_run
  by (simp add: in_flight_at_stop_def returned_after_stop_def release_build_def compiled_def)

subsection \<open>The counter\<close>

text \<open>
  Claim C8. In every state the two threads can reach, \<open>queue_length_\<close> is the length of
  the input queue plus one for each thread that stands between its update of the counter
  and its update of the queue (32-bit arithmetic); with no thread there and fewer than
  \<open>2^31\<close> jobs queued, its signed value is the length of the input queue.
  \<open>QueueForOptimization\<close> returns (in a debug build: when its assertions hold), having
  added one to the counter and appended the job; whenever it returns it has done so.
  \<open>CompileNext\<close> on a non-empty input queue returns (in a debug build: when the front job
  meets its assertions), having removed the front job and subtracted one; whenever it returns
  it has done so. \<open>InstallOptimizedFunctions\<close> and the first half of \<open>Stop\<close> leave counter
  and input queue alone. In the two threads' steps, a call of \<open>QueueForOptimization\<close> and a
  round of \<open>CompileNext\<close>, left uninterrupted, end in the state the member function
  returns; the increment of line 165 and the decrement of line 82 are always possible and
  change the counter by one; and no other step changes it.
\<close>

theorem queue_length_tracks_input_queue:
  "(exec cfg ms (initial h) = Some sys \<longrightarrow>
      queue_length (shared sys) =
        of_nat (length (input_queue (shared sys)) + main_ahead (main sys) +
                worker_ahead (worker sys)) \<and>
      (main_ahead (main sys) = 0 \<and> worker_ahead (worker sys) = 0 \<and>
       length (input_queue (shared sys)) < 2 ^ 31 \<longrightarrow>
         sint (queue_length (shared sys)) = int (length (input_queue (shared sys))))) \<and>
   ((DEBUG cfg \<longrightarrow> IsQueueAvailable cfg s \<and> \<not> IsOptimizerThread cfg t) \<longrightarrow>
      QueueForOptimization cfg t job s =
        Inr (s\<lparr>queue_length := queue_length s + 1, input_queue := input_queue s @ [job],
               trace := trace s @ [InputEnqueue t job],
               input_queue_semaphore := input_queue_semaphore s + 1\<rparr>)) \<and>
   (QueueForOptimization cfg t job s = Inr s' \<longrightarrow>
      queue_length s' = queue_length s + 1 \<and> input_queue s' = input_queue s @ [job]) \<and>
   (input_queue s = job # rest \<and>
    (DEBUG cfg \<longrightarrow> IsInRecompileQueue (heap s (closure job)) \<and> OptimizeGraph job \<noteq> FAILED) \<longrightarrow>
      (\<exists>s''. CompileNext cfg t s = Inr s'' \<and> queue_length s'' = queue_length s - 1 \<and>
             input_queue s'' = rest)) \<and>
   (CompileNext cfg t s = Inr s' \<longrightarrow>
      queue_length s' = queue_length s - 1 \<and> input_queue s' = tl (input_queue s) \<and>
      input_queue s \<noteq> []) \<and>
   (InstallOptimizedFunctions cfg t s = Inr s' \<longrightarrow>
      queue_length s' = queue_length s \<and> input_queue s' = input_queue s) \<and>
   (Stop_before_Wait cfg t s = Inr s' \<longrightarrow>
      queue_length s' = queue_length s \<and> input_queue s' = input_queue s) \<and>
   (main a = M_Idle \<and> failure a = None \<and>
    QueueForOptimization cfg ExecutionThread job (shared a) = Inr s' \<longrightarrow>
      exec cfg [MainCall (Call_QueueForOptimization job), MainStep, MainStep, MainStep] a =
        Some (a\<lparr>shared := s'\<rparr>)) \<and>
   (worker a = W_CompileNext C_Dequeue \<and> failure a = None \<and>
    CompileNext cfg OptimizerThread (shared a) = Inr s' \<longrightarrow>
      exec cfg (replicate 5 WorkerStep) a = Some (a\<lparr>shared := s', worker := W_Wait\<rparr>)) \<and>
   (failure a = None \<and> main a = M_Queue_Increment job \<longrightarrow>
      step cfg MainStep a =
        Some (a\<lparr>shared := (shared a)\<lparr>queue_length := queue_length (shared a) + 1\<rparr>,
                main := M_Queue_Enqueue job\<rparr>)) \<and>
   (failure a = None \<and> worker a = W_CompileNext (C_Decrement job) \<longrightarrow>
      step cfg WorkerStep a =
        Some (a\<lparr>shared := (shared a)\<lparr>queue_length := queue_length (shared a) - 1\<rparr>,
                worker := W_CompileNext (C_OptimizeGraph job)\<rparr>)) \<and>
   (failure a = None \<and> main a = M_Stop_CompileNext (C_Decrement job) \<longrightarrow>
      step cfg MainStep a =
        Some (a\<lparr>shared := (shared a)\<lparr>queue_length := queue_length (shared a) - 1\<rparr>,
                main := M_Stop_CompileNext (C_OptimizeGraph job)\<rparr>)) \<and>
   (step cfg m a = Some b \<and> queue_length (shared b) \<noteq> queue_length (shared a) \<longrightarrow>
      (\<exists>job. main a = M_Queue_Increment job \<and>
             queue_length (shared b) = queue_length (shared a) + 1) \<or>
      (\<exists>job. (worker a = W_CompileNext (C_Decrement job) \<or>
              main a = M_Stop_CompileNext (C_Decrement job)) \<and>
             queue_length (shared b) = queue_length (shared a) - 1))"
proof (intro conjI)
  show "exec cfg ms (initial h) = Some sys \<longrightarrow>
      queue_length (shared sys) =
        of_nat (length (input_queue (shared sys)) + main_ahead (main sys) +
                worker_ahead (worker sys)) \<and>
      (main_ahead (main sys) = 0 \<and> worker_ahead (worker sys) = 0 \<and>
       length (input_queue (shared sys)) < 2 ^ 31 \<longrightarrow>
         sint (queue_length (shared sys)) = int (length (input_queue (shared sys))))"
  proof
    assume "exec cfg ms (initial h) = Some sys"
    then have "counter sys"
      using invariant_reachable by (simp add: invariant_def)
    then show "queue_length (shared sys) =
        of_nat (length (input_queue (shared sys)) + main_ahead (main sys) +
                worker_ahead (worker sys)) \<and>
      (main_ahead (main sys) = 0 \<and> worker_ahead (worker sys) = 0 \<and>
       length (input_queue (shared sys)) < 2 ^ 31 \<longrightarrow>
         sint (queue_length (shared sys)) = int (length (input_queue (shared sys))))"
      using sint_of_nat_small [of "length (input_queue (shared sys))"]
      by (auto simp: counter_def)
  qed
next
  show "(DEBUG cfg \<longrightarrow> IsQueueAvailable cfg s \<and> \<not> IsOptimizerThread cfg t) \<longrightarrow>
      QueueForOptimization cfg t job s =
        Inr (s\<lparr>queue_length := queue_length s + 1, input_queue := input_queue s @ [job],
               trace := trace s @ [InputEnqueue t job],
               input_queue_semaphore := input_queue_semaphore s + 1\<rparr>)"
    using QueueForOptimization_returns [of cfg s t job] by blast
next
  show "QueueForOptimization cfg t job s = Inr s' \<longrightarrow>
      queue_length s' = queue_length s + 1 \<and> input_queue s' = input_queue s @ [job]"
    using QueueForOptimization_Inr [of cfg t job s s'] by blast
next
  show "input_queue s = job # rest \<and>
    (DEBUG cfg \<longrightarrow> IsInRecompileQueue (heap s (closure job)) \<and> OptimizeGraph job \<noteq> FAILED) \<longrightarrow>
      (\<exists>s''. CompileNext cfg t s = Inr s'' \<and> queue_length s'' = queue_length s - 1 \<and>
             input_queue s'' = rest)"
    using CompileNext_returns [of s job rest cfg t] by blast
next
  show "CompileNext cfg t s = Inr s' \<longrightarrow>
      queue_length s' = queue_length s - 1 \<and> input_queue s' = tl (input_queue s) \<and>
      input_queue s \<noteq> []"
    using CompileNext_Inr [of cfg t s s'] by blast
next
  show "InstallOptimizedFunctions cfg t s = Inr s' \<longrightarrow>
      queue_length s' = queue_length s \<and> input_queue s' = input_queue s"
    using InstallOptimizedFunctions_Inr [of cfg t s s'] by blast
next
  show "Stop_before_Wait cfg t s = Inr s' \<longrightarrow>
      queue_length s' = queue_length s \<and> input_queue s' = input_queue s"
    using Stop_before_Wait_Inr [of cfg t s s'] by blast
next
  show "main a = M_Idle \<and> failure a = None \<and>
    QueueForOptimization cfg ExecutionThread job (shared a) = Inr s' \<longrightarrow>
      exec cfg [MainCall (Call_QueueForOptimization job), MainStep, MainStep, MainStep] a =
        Some (a\<lparr>shared := s'\<rparr>)"
    using QueueForOptimization_run [of a cfg job s'] by blast
next
  show "worker a = W_CompileNext C_Dequeue \<and> failure a = None \<and>
    CompileNext cfg OptimizerThread (shared a) = Inr s' \<longrightarrow>
      exec cfg (replicate 5 WorkerStep) a = Some (a\<lparr>shared := s', worker := W_Wait\<rparr>)"
    using CompileNext_run_worker [of a cfg s'] by blast
next
  show "failure a = None \<and> main a = M_Queue_Increment job \<longrightarrow>
      step cfg MainStep a =
        Some (a\<lparr>shared := (shared a)\<lparr>queue_length := queue_length (shared a) + 1\<rparr>,
                main := M_Queue_Enqueue job\<rparr>)"
    using counter_steps(1) [of a job cfg] by blast
next
  show "failure a = None \<and> worker a = W_CompileNext (C_Decrement job) \<longrightarrow>
      step cfg WorkerStep a =
        Some (a\<lparr>shared := (shared a)\<lparr>queue_length := queue_length (shared a) - 1\<rparr>,
                worker := W_CompileNext (C_OptimizeGraph job)\<rparr>)"
    using counter_steps(2) [of a job cfg] by blast
next
  show "failure a = None \<and> main a = M_Stop_CompileNext (C_Decrement job) \<longrightarrow>
      step cfg MainStep a =
        Some (a\<lparr>shared := (shared a)\<lparr>queue_length := queue_length (shared a) - 1\<rparr>,
                main := M_Stop_CompileNext (C_OptimizeGraph job)\<rparr>)"
    using counter_steps(3) [of a job cfg] by blast
next
  show "step cfg m a = Some b \<and> queue_length (shared b) \<noteq> queue_length (shared a) \<longrightarrow>
      (\<exists>job. main a = M_Queue_Increment job \<and>
             queue_length (shared b) = queue_length (shared a) + 1) \<or>
      (\<exists>job. (worker a = W_CompileNext (C_Decrement job) \<or>
              main a = M_Stop_CompileNext (C_Decrement job)) \<and>
             queue_length (shared b) = queue_length (shared a) - 1)"
    using queue_length_changes [of cfg m a b] by blast
qed

theorem queue_length_tracks_input_queue_witness:
  "queue_length (shared one_left) = 1 \<and> sint (queue_length (shared one_left)) = 1 \<and>
   QueueForOptimization debug_build ExecutionThread (job_for 3)
       (idle [job_for 1, job_for 2] [] all_queued) =
     Inr ((idle [job_for 1, job_for 2, job_for 3] [] all_queued)
            \<lparr>trace := [InputEnqueue ExecutionThread (job_for 3)]\<rparr>) \<and>
   (\<exists>s'. CompileNext debug_build OptimizerThread (idle [job_for 1, job_for 2] [] all_queued) =
           Inr s' \<and> queue_length s' = 1 \<and> input_queue s' = [job_for 2]) \<and>
   (\<exists>b. exec release_build
           [MainCall (Call_QueueForOptimization (job_for 3)), MainStep, MainStep, MainStep]
           one_left = Some b \<and>
        queue_length (shared b) = 2 \<and> input_queue (shared b) = [job_for 2, job_for 3]) \<and>
   step release_build WorkerStep
       (one_left\<lparr>shared := (shared one_left)\<lparr>queue_length := 2\<rparr>,
                  worker := W_CompileNext (C_Decrement (job_for 1))\<rparr>) = Some one_left"
proof -
  let ?q = "idle [job_for 1, job_for 2] [] all_queued"
  let ?a = "one_left\<lparr>shared := (shared one_left)\<lparr>queue_length := 2\<rparr>,
                  worker := W_CompileNext (C_Decrement (job_for 1))\<rparr>"
  let ?s' = "(shared one_left)\<lparr>queue_length := 2, input_queue := [job_for 2, job_for 3],
               trace := trace (shared one_left) @ [InputEnqueue ExecutionThread (job_for 3)],
               input_queue_semaphore := 2\<rparr>"
  note t1 = queue_length_tracks_input_queue [where cfg = release_build
      and ms = two_queued_one_taken and h = all_queued and sys = one_left
      and s = "shared one_left" and t = ExecutionThread and job = "job_for 3" and s' = ?s'
      and a = one_left]
  note t2 = queue_length_tracks_input_queue [where cfg = debug_build and s = ?q
      and t = ExecutionThread and job = "job_for 3"]
  note t3 = queue_length_tracks_input_queue [where cfg = debug_build and s = ?q
      and t = OptimizerThread and job = "job_for 1" and rest = "[job_for 2]"]
  note t4 = queue_length_tracks_input_queue [where cfg = release_build and a = ?a
      and job = "job_for 1"]
  have 1: "queue_length (shared one_left) = 1 \<and> sint (queue_length (shared one_left)) = 1"
    using t1 [THEN conjunct1] two_queued_one_taken_run by (simp add: one_left_def)
  have 2: "QueueForOptimization debug_build ExecutionThread (job_for 3) ?q =
     Inr ((idle [job_for 1, job_for 2, job_for 3] [] all_queued)
            \<lparr>trace := [InputEnqueue ExecutionThread (job_for 3)]\<rparr>)"
    using t2 [THEN conjunct2, THEN conjunct1]
    by (simp add: idle_def debug_build_def IsOptimizerThread_def)
  have 3: "\<exists>s'. CompileNext debug_build OptimizerThread ?q = Inr s' \<and> queue_length s' = 1 \<and>
            input_queue s' = [job_for 2]"
    using t3 [THEN conjunct2, THEN conjunct2, THEN conjunct2, THEN conjunct1]
    by (simp add: idle_def debug_build_def job_for_def all_queued_def IsInRecompileQueue_def)
  have q: "QueueForOptimization release_build ExecutionThread (job_for 3) (shared one_left) =
             Inr ?s'"
    using t1 [THEN conjunct2, THEN conjunct1]
    by (simp add: one_left_def release_build_def)
  have "exec release_build
           [MainCall (Call_QueueForOptimization (job_for 3)), MainStep, MainStep, MainStep]
           one_left = Some (one_left\<lparr>shared := ?s'\<rparr>)"
    using t1 [THEN conjunct2, THEN conjunct2, THEN conjunct2, THEN conjunct2, THEN conjunct2,
        THEN conjunct2, THEN conjunct2, THEN conjunct1] q
    by (simp add: one_left_def)
  then have 4: "\<exists>b. exec release_build
           [MainCall (Call_QueueForOptimization (job_for 3)), MainStep, MainStep, MainStep]
           one_left = Some b \<and>
        queue_length (shared b) = 2 \<and> input_queue (shared b) = [job_for 2, job_for 3]"
    by simp
  have 5: "step release_build WorkerStep ?a = Some one_left"
    using t4 [THEN conjunct2, THEN conjunct2, THEN conjunct2, THEN conjunct2, THEN conjunct2,
        THEN conjunct2, THEN conjunct2, THEN conjunct2, THEN conjunct2, THEN conjunct2,
        THEN conjunct1]
    by (simp add: one_left_def)
  show ?thesis using 1 2 3 4 5 by simp
qed

subsection \<open>Termination of InstallOptimizedFunctions\<close>

text \<open>
  Claim C10, as the code has it. Run on its own, the loop of \<open>InstallOptimizedFunctions\<close>
  returns, having installed a prefix of the output queue: at most as many jobs as the queue
  held at entry. Between any two states of an execution, the jobs installed are those that
  left the output queue: the queue's length at the first state, plus the jobs published in
  between, minus its length at the second. And a call from outside \<open>Stop\<close> takes at most
  twice the number of jobs then in the queues or in compilation, plus one, steps of the
  execution thread, whatever the optimizer thread does meanwhile.
\<close>

theorem InstallOptimizedFunctions_terminates:
  "(\<exists>n s'. InstallOptimizedFunctions_loop cfg t 0 s = Inr (n, s') \<and>
       n \<le> length (output_queue s) \<and>
       length (output_queue s') + n = length (output_queue s) \<and>
       installed (trace s') = installed (trace s) @ take n (output_queue s)) \<and>
   (exec cfg ms (initial h) = Some sys \<and> exec cfg ms' sys = Some sys' \<longrightarrow>
      length (installed (trace (shared sys'))) + length (output_queue (shared sys')) +
        length (published (trace (shared sys))) =
      length (installed (trace (shared sys))) + length (output_queue (shared sys)) +
        length (published (trace (shared sys')))) \<and>
   (exec cfg ms (initial h) = Some sys \<and> exec cfg ms' sys = Some sys' \<and>
    main sys = M_Install_Loop To_Idle \<and> (\<forall>m \<in> set ms'. \<not> is_call m) \<longrightarrow>
      count_list ms' MainStep \<le> 2 * length (pipeline sys) + 1)"
proof (intro conjI impI)
  let ?js = "takeWhile (eligible s) (output_queue s)"
  have "length ?js \<le> length (output_queue s)"
    by (rule length_takeWhile_le)
  moreover have "take (length ?js) (output_queue s) = ?js"
    by (metis append_eq_conv_conj takeWhile_dropWhile_id)
  ultimately show "\<exists>n s'. InstallOptimizedFunctions_loop cfg t 0 s = Inr (n, s') \<and>
       n \<le> length (output_queue s) \<and>
       length (output_queue s') + n = length (output_queue s) \<and>
       installed (trace s') = installed (trace s) @ take n (output_queue s)"
    by (simp add: InstallOptimizedFunctions_loop_eq install_all_def installed_def
        comp_def)
next
  assume "exec cfg ms (initial h) = Some sys \<and> exec cfg ms' sys = Some sys'"
  then show "length (installed (trace (shared sys'))) + length (output_queue (shared sys')) +
        length (published (trace (shared sys))) =
      length (installed (trace (shared sys))) + length (output_queue (shared sys)) +
        length (published (trace (shared sys')))"
    using exec_balance by blast
next
  assume a: "exec cfg ms (initial h) = Some sys \<and> exec cfg ms' sys = Some sys' \<and>
    main sys = M_Install_Loop To_Idle \<and> (\<forall>m \<in> set ms'. \<not> is_call m)"
  then have "install_budget sys' + count_list ms' MainStep \<le> install_budget sys"
    using install_budget_exec [of cfg ms' sys sys'] invariant_reachable [of cfg ms h sys]
    by blast
  then show "count_list ms' MainStep \<le> 2 * length (pipeline sys) + 1"
    using a by simp
qed

theorem InstallOptimizedFunctions_terminates_witness:
  "(\<exists>n s'. InstallOptimizedFunctions_loop release_build ExecutionThread 0
              (shared install_entry) = Inr (n, s') \<and> n \<le> 1 \<and>
            length (output_queue s') + n = 1) \<and>
   length (installed (trace (shared install_exit))) + 0 + 1 = 0 + 1 + 2 \<and>
   count_list install_overlapped MainStep \<le> 5"
proof -
  note t = InstallOptimizedFunctions_terminates [of release_build ExecutionThread
      "shared install_entry" install_called all_queued install_entry install_overlapped
      install_exit]
  have 1: "\<exists>n s'. InstallOptimizedFunctions_loop release_build ExecutionThread 0
              (shared install_entry) = Inr (n, s') \<and> n \<le> 1 \<and>
            length (output_queue s') + n = 1"
    using t [THEN conjunct1] by (auto simp: install_entry_def)
  have 2: "length (installed (trace (shared install_exit))) + 0 + 1 = 0 + 1 + 2"
    using t [THEN conjunct2, THEN conjunct1] install_called_run install_overlapped_run
    by (simp add: install_entry_def install_exit_def installed_def published_def)
  have 3: "count_list install_overlapped MainStep \<le> 5"
    using t [THEN conjunct2, THEN conjunct2] install_called_run install_overlapped_run
    by (simp add: install_entry_def install_overlapped_def pipeline_def)
  show ?thesis using 1 2 3 by simp
qed

text \<open>
  The bound of the claim as worded (at most as many installations as the output queue held
  at entry) fails when the optimizer thread publishes and marks a job during the call: the
  call is entered with one job in the output queue and installs two.
\<close>

theorem InstallOptimizedFunctions_installs_more_than_at_entry:
  "exec release_build install_called (initial all_queued) = Some install_entry \<and>
   main install_entry = M_Install_Loop To_Idle \<and>
   length (output_queue (shared install_entry)) = 1 \<and>
   installed (trace (shared install_entry)) = [] \<and>
   exec release_build install_overlapped install_entry = Some install_exit \<and>
   filter is_call install_overlapped = [] \<and>
   main install_exit = M_Idle \<and>
   installed (trace (shared install_exit)) = [job_for 1, job_for 2]"
  using install_called_run install_overlapped_run
  by (simp add: install_entry_def install_exit_def install_overlapped_def installed_def)

subsection \<open>Draining on shutdown\<close>

text \<open>
  Claim C4. Take any state the two threads can reach in which \<open>Stop\<close> has come back from
  waiting for the acknowledgement, with the delay flag non-zero, fewer than \<open>2^31\<close> jobs in
  the input queue and, in a debug build, queued jobs that meet the assertions of
  \<open>CompileNext\<close> (distinct functions, each in the recompile queue, none that fails to
  compile). Then the rest of \<open>Stop\<close> returns, and so do the steps of the execution thread,
  in the same state: input and output queue empty, the counter zero, every job that was in
  the input queue compiled, and every job ever enqueued compiled and installed, in the
  order of enqueueing.
\<close>

theorem Stop_drains_with_delay:
  assumes "exec cfg ms (initial h) = Some sys" and "main sys = M_Stop_Flag"
    and "failure sys = None"
    and "FLAG_parallel_recompilation_delay cfg \<noteq> 0"
    and "length (input_queue (shared sys)) < 2 ^ 31"
    and "vetted cfg (shared sys) (input_queue (shared sys))"
  shows "\<exists>s'. Stop_after_Wait cfg ExecutionThread (shared sys) = Inr s' \<and>
              (\<exists>n. exec cfg (replicate n MainStep) sys =
                      Some (sys\<lparr>shared := s', main := M_Stop_Trace\<rparr>)) \<and>
              input_queue s' = [] \<and> output_queue s' = [] \<and> queue_length s' = 0 \<and>
              compiled (trace s') = compiled (trace (shared sys)) @ input_queue (shared sys) \<and>
              compiled (trace s') = enqueued (trace s') \<and>
              installed (trace s') = enqueued (trace s')"
proof -
  obtain s' where s': "Stop_after_Wait cfg ExecutionThread (shared sys) = Inr s'"
    "input_queue s' = []" "output_queue s' = []" "queue_length s' = 0"
    "compiled (trace s') = compiled (trace (shared sys)) @ input_queue (shared sys)"
    "compiled (trace s') = enqueued (trace s')" "installed (trace s') = enqueued (trace s')"
    using Stop_after_Wait_drains [OF assms(1,2,4,5,6)] by blast
  then show ?thesis
    using Stop_after_Wait_run [OF assms(2,3) s'(1)] by blast
qed

theorem Stop_drains_with_delay_witness:
  "\<exists>s'. Stop_after_Wait debug_delay_build ExecutionThread (shared three_left_at_stop) = Inr s' \<and>
         (\<exists>n. exec debug_delay_build (replicate n MainStep) three_left_at_stop =
                 Some (three_left_at_stop\<lparr>shared := s', main := M_Stop_Trace\<rparr>)) \<and>
         input_queue s' = [] \<and> output_queue s' = [] \<and> queue_length s' = 0 \<and>
         compiled (trace s') = [job_for 1, job_for 2, job_for 3] \<and>
         installed (trace s') = compiled (trace s')"
proof -
  have v: "vetted debug_delay_build (shared three_left_at_stop)
             (input_queue (shared three_left_at_stop))"
    by (simp add: vetted_def three_left_at_stop_def job_for_def all_queued_def)
  have "\<exists>s'. Stop_after_Wait debug_delay_build ExecutionThread (shared three_left_at_stop) =
                Inr s' \<and>
              (\<exists>n. exec debug_delay_build (replicate n MainStep) three_left_at_stop =
                      Some (three_left_at_stop\<lparr>shared := s', main := M_Stop_Trace\<rparr>)) \<and>
              input_queue s' = [] \<and> output_queue s' = [] \<and> queue_length s' = 0 \<and>
              compiled (trace s') = compiled (trace (shared three_left_at_stop)) @
                input_queue (shared three_left_at_stop) \<and>
              compiled (trace s') = enqueued (trace s') \<and>
              installed (trace s') = enqueued (trace s')"
    using Stop_drains_with_delay [OF stop_acknowledged_run _ _ _ _ v]
    by (simp add: three_left_at_stop_def debug_delay_build_def)
  then obtain s' where s':
    "Stop_after_Wait debug_delay_build ExecutionThread (shared three_left_at_stop) = Inr s'"
    "\<exists>n. exec debug_delay_build (replicate n MainStep) three_left_at_stop =
                      Some (three_left_at_stop\<lparr>shared := s', main := M_Stop_Trace\<rparr>)"
    "input_queue s' = []" "output_queue s' = []" "queue_length s' = 0"
    "compiled (trace s') = compiled (trace (shared three_left_at_stop)) @
                input_queue (shared three_left_at_stop)"
    "compiled (trace s') = enqueued (trace s')" "installed (trace s') = enqueued (trace s')"
    by blast
  have "compiled (trace s') = [job_for 1, job_for 2, job_for 3]"
    using s'(6) by (simp add: three_left_at_stop_def compiled_def)
  then show ?thesis
    using s' by auto
qed

subsection \<open>No job lost, none twice, all in order\<close>




end
